theory Spec2Isabelle
  imports Main "HOL-Library.Sublist"
begin

section \<open>JavaScript strings\<close>

text \<open>
  Strings are \<open>char list\<close>. The source's strings are UTF-16; the model covers the
  ASCII range, where \<open>toLowerCase\<close> maps \<open>A\<close>..\<open>Z\<close> to \<open>a\<close>..\<open>z\<close> and leaves every
  other character alone.
\<close>

definition lowerChar :: "char \<Rightarrow> char" where
  "lowerChar c =
     (let n = (of_char c :: nat) in if 65 \<le> n \<and> n \<le> 90 then char_of (n + 32) else c)"

definition toLowerCase :: "string \<Rightarrow> string" where
  "toLowerCase s = map lowerChar s"

text \<open>\<open>s.split(sep)\<close> for a one-character separator: never empty, \<open>''''.split(sep) = ['''']\<close>.\<close>

fun split :: "char \<Rightarrow> string \<Rightarrow> string list" where
  "split sep [] = [[]]"
| "split sep (c # cs) =
     (if c = sep then [] # split sep cs
      else (case split sep cs of
              [] \<Rightarrow> [[c]]
            | r # rs \<Rightarrow> (c # r) # rs))"

text \<open>\<open>s.includes(sub)\<close>: \<open>sub\<close> occurs in \<open>s\<close> as a contiguous substring.\<close>

fun str_includes :: "string \<Rightarrow> string \<Rightarrow> bool" where
  "str_includes [] sub = (sub = [])"
| "str_includes (c # cs) sub = (prefix sub (c # cs) \<or> str_includes cs sub)"

text \<open>\<open>xs.join(sep)\<close> on an array of strings.\<close>

fun join :: "string \<Rightarrow> string list \<Rightarrow> string" where
  "join sep [] = []"
| "join sep [x] = x"
| "join sep (x # y # ys) = x @ sep @ join sep (y # ys)"

definition isDigit :: "char \<Rightarrow> bool" where
  "isDigit c = (let n = (of_char c :: nat) in 48 \<le> n \<and> n \<le> 57)"

text \<open>\<open>parseInt(s, 10)\<close> on a string of decimal digits.\<close>

definition parseInt :: "string \<Rightarrow> int" where
  "parseInt s = foldl (\<lambda>acc c. 10 * acc + (int (of_char c) - 48)) 0 s"

text \<open>Decimal rendering of an integer, as a template literal prints an integral number.\<close>

function digitsOfNat :: "nat \<Rightarrow> string" where
  "digitsOfNat n =
     (if n < 10 then [char_of (48 + n)]
      else digitsOfNat (n div 10) @ [char_of (48 + n mod 10)])"
  by pat_completeness auto
termination
  by (relation "measure id") auto

definition stringOfInt :: "int \<Rightarrow> string" where
  "stringOfInt i = (if i < 0 then CHR ''-'' # digitsOfNat (nat (- i)) else digitsOfNat (nat i))"

section \<open>Calendar arithmetic of the Date built-in\<close>

definition InLeapYear :: "int \<Rightarrow> bool" where
  "InLeapYear y = (y mod 4 = 0 \<and> (y mod 100 \<noteq> 0 \<or> y mod 400 = 0))"

text \<open>Day number of 1 January of year \<open>y\<close>, counted from 1 January 1970.\<close>

definition DayFromYear :: "int \<Rightarrow> int" where
  "DayFromYear y =
     365 * (y - 1970) + (y - 1969) div 4 - (y - 1901) div 100 + (y - 1601) div 400"

text \<open>Months are numbered from 0 (January) to 11 (December), as \<open>getMonth\<close> does.\<close>

definition daysInMonth :: "int \<Rightarrow> int \<Rightarrow> int" where
  "daysInMonth y m =
     (if m = 1 then (if InLeapYear y then 29 else 28)
      else if m = 3 \<or> m = 5 \<or> m = 8 \<or> m = 10 then 30
      else 31)"

definition daysBeforeMonth :: "int \<Rightarrow> int \<Rightarrow> int" where
  "daysBeforeMonth y m = (\<Sum>k \<leftarrow> [0 ..< nat m]. daysInMonth y (int k))"

text \<open>
  \<open>MakeDay(year, month, date)\<close>: the month is carried into the year, the date is added
  as a plain offset, so that day 0 or day 32 lands in a neighbouring month.
\<close>

definition MakeDay :: "int \<Rightarrow> int \<Rightarrow> int \<Rightarrow> int" where
  "MakeDay year month date =
     (let ym = year + month div 12; mn = month mod 12
      in DayFromYear ym + daysBeforeMonth ym mn + date - 1)"

definition msPerDay :: int where
  "msPerDay = 86400000"

section \<open>The webview's task and the filter\<close>

datatype jsval =
    JNull
  | JUndefined
  | JBool bool
  | JNum int
  | JStr string
  | JArr "string list"

text \<open>Template-literal conversion \<open>`${v}`\<close>.\<close>

fun templateString :: "jsval \<Rightarrow> string" where
  "templateString JNull = ''null''"
| "templateString JUndefined = ''undefined''"
| "templateString (JBool b) = (if b then ''true'' else ''false'')"
| "templateString (JNum n) = stringOfInt n"
| "templateString (JStr s) = s"
| "templateString (JArr xs) = join '','' xs"

record relation =
  rel_type :: string
  rel_task :: string

record subTask =
  st_text :: string
  st_completed :: bool

record comment =
  cm_author :: string
  cm_date :: string
  cm_text :: string

text \<open>
  \<open>KanbnTask.metadata\<close>: the typed keys the filter reads, and the index signature
  \<open>[key: string]: any\<close> as a map from every other key to its value.
\<close>

record metadata =
  md_due :: "string option"
  md_assigned :: "string option"
  md_tags :: "string list option"
  md_other :: "string \<rightharpoonup> jsval"

record task =
  task_id :: string
  task_name :: string
  task_description :: string
  task_metadata :: metadata
  task_relations :: "relation list"
  task_subTasks :: "subTask list"
  task_comments :: "comment list"

text \<open>\<open>task.metadata[key]\<close>; \<open>None\<close> when \<open>key in task.metadata\<close> is false.\<close>

definition metadataGet :: "metadata \<Rightarrow> string \<Rightarrow> jsval option" where
  "metadataGet m key =
     (if key = ''due'' then map_option JStr (md_due m)
      else if key = ''assigned'' then map_option JStr (md_assigned m)
      else if key = ''tags'' then map_option JArr (md_tags m)
      else md_other m key)"

datatype fieldType = TBoolean | TDate | TNumber | TString

record customField =
  cf_name :: string
  cf_type :: fieldType

text \<open>
  What the filter takes from its host: the current instant, the Date constructor on a
  string that is not in slash form (\<open>None\<close> for an invalid date), and the local time
  zone's conversion of a local time value to UTC.
\<close>

record host =
  now :: int
  dateOfString :: "string \<Rightarrow> int option"
  utcOfLocal :: "int \<Rightarrow> int"

text \<open>The match of \<open>/^(\d{1,2})\/(\d{1,2})\/(\d{4})$/\<close>: day, month, year.\<close>

definition slashMatch :: "string \<Rightarrow> (string \<times> string \<times> string) option" where
  "slashMatch s =
     (case split CHR ''/'' s of
        [d, m, y] \<Rightarrow>
          if list_all isDigit d \<and> (length d = 1 \<or> length d = 2)
             \<and> list_all isDigit m \<and> (length m = 1 \<or> length m = 2)
             \<and> list_all isDigit y \<and> length y = 4
          then Some (d, m, y) else None
      | _ \<Rightarrow> None)"

text \<open>\<open>new Date(year, month, day).getTime()\<close>; a year from 0 to 99 means 1900 + year.\<close>

definition newDateYMD :: "host \<Rightarrow> int \<Rightarrow> int \<Rightarrow> int \<Rightarrow> int" where
  "newDateYMD h year month day =
     (let yr = (if 0 \<le> year \<and> year \<le> 99 then 1900 + year else year)
      in utcOfLocal h (MakeDay yr month day * msPerDay))"

definition parseDate :: "host \<Rightarrow> string option \<Rightarrow> int option" where
  "parseDate h v =
     (case v of
        None \<Rightarrow> None
      | Some s \<Rightarrow>
          (case slashMatch s of
             Some (d, m, y) \<Rightarrow>
               (let day = parseInt d; month = parseInt m; year = parseInt y
                in Some (newDateYMD h year (month - 1) day))
           | None \<Rightarrow> dateOfString h s))"

definition checkOverdue :: "host \<Rightarrow> task \<Rightarrow> bool" where
  "checkOverdue h t =
     (if md_due (task_metadata t) \<noteq> None then
        (case parseDate h (md_due (task_metadata t)) of
           None \<Rightarrow> False
         | Some d \<Rightarrow> d < now h)
      else False)"

definition filterProperties :: "string list" where
  "filterProperties =
     [''description'', ''assigned'', ''tag'', ''relation'', ''subtask'', ''comment'']"

text \<open>
  \<open>Object.fromEntries\<close> over the schema, keyed by the lower-cased name: of two entries
  with the same key the later one stays.
\<close>

definition customFieldMap :: "customField list \<Rightarrow> (string \<rightharpoonup> customField)" where
  "customFieldMap customFields =
     map_of (rev (map (\<lambda>customField. (toLowerCase (cf_name customField), customField)) customFields))"

definition propertyValue :: "task \<Rightarrow> customField list \<Rightarrow> string \<Rightarrow> string" where
  "propertyValue t customFields key =
     (if key = ''description'' then
        join '' '' (task_description t # map st_text (task_subTasks t))
      else if key = ''assigned'' then
        (case md_assigned (task_metadata t) of None \<Rightarrow> [] | Some a \<Rightarrow> a)
      else if key = ''tag'' then
        join '' '' (case md_tags (task_metadata t) of None \<Rightarrow> [] | Some ts \<Rightarrow> ts)
      else if key = ''relation'' then
        join '' '' (map (\<lambda>r. rel_type r @ '' '' @ rel_task r) (task_relations t))
      else if key = ''subtask'' then
        join '' '' (map st_text (task_subTasks t))
      else if key = ''comment'' then
        join '' '' (map (\<lambda>c. cm_author c @ '' '' @ cm_text c) (task_comments t))
      else
        (case customFieldMap customFields key of
           None \<Rightarrow> []
         | Some cf \<Rightarrow>
             if cf_type cf \<noteq> TBoolean then
               (case metadataGet (task_metadata t) (cf_name cf) of
                  None \<Rightarrow> []
                | Some v \<Rightarrow> templateString v)
             else []))"

text \<open>
  The body of the \<open>forEach\<close> over the filter's sections: \<open>True\<close> when the section
  leaves \<open>result\<close> alone, \<open>False\<close> when it sets \<open>result = false\<close>.
\<close>

definition sectionMatches :: "host \<Rightarrow> task \<Rightarrow> customField list \<Rightarrow> string \<Rightarrow> bool" where
  "sectionMatches h t customFields f =
     (let parts = map toLowerCase (split CHR '':'' f)
      in if length parts = 1 then
           (let p0 = parts ! 0
            in if p0 = ''overdue'' then checkOverdue h t
               else
                 (case customFieldMap customFields p0 of
                    Some cf \<Rightarrow>
                      if cf_type cf = TBoolean then
                        (case metadataGet (task_metadata t) (cf_name cf) of
                           None \<Rightarrow> False
                         | Some v \<Rightarrow> v = JNull \<or> v = JUndefined)
                      else
                        str_includes (toLowerCase (task_id t)) p0
                        \<or> str_includes (toLowerCase (task_name t)) p0
                  | None \<Rightarrow>
                      str_includes (toLowerCase (task_id t)) p0
                      \<or> str_includes (toLowerCase (task_name t)) p0))
         else if length parts = 2
                 \<and> (parts ! 0 \<in> set filterProperties
                      \<or> customFieldMap customFields (parts ! 0) \<noteq> None) then
           str_includes (toLowerCase (propertyValue t customFields (parts ! 0))) (parts ! 1)
         else True)"

definition filterTask :: "host \<Rightarrow> task \<Rightarrow> string \<Rightarrow> customField list \<Rightarrow> bool" where
  "filterTask h t taskFilter customFields =
     foldl (\<lambda>result f. if sectionMatches h t customFields f then result else False)
       True (split CHR '' '' taskFilter)"

section \<open>Selection in the webview\<close>

text \<open>
  A JavaScript \<open>Set\<close> of strings keeps insertion order, which \<open>[...set]\<close> reads back;
  it is modelled as a duplicate-free list in that order.
\<close>

definition setAdd :: "string list \<Rightarrow> string \<Rightarrow> string list" where
  "setAdd xs x = (if x \<in> set xs then xs else xs @ [x])"

definition setDelete :: "string list \<Rightarrow> string \<Rightarrow> string list" where
  "setDelete xs x = filter (\<lambda>y. y \<noteq> x) xs"

record lastClicked =
  lc_taskId :: string
  lc_columnName :: string
  lc_position :: nat

record mouseEvent =
  shiftKey :: bool
  ctrlKey :: bool
  metaKey :: bool

text \<open>The part of the board's React state that selection and dragging read.\<close>

record boardState =
  bs_columns :: "(string \<times> task list) list"
  bs_taskFilter :: string
  bs_customFields :: "customField list"

text \<open>\<open>state.columns[columnName] ?? []\<close>\<close>

definition columnTasks :: "(string \<times> task list) list \<Rightarrow> string \<Rightarrow> task list" where
  "columnTasks columns columnName =
     (case map_of columns columnName of None \<Rightarrow> [] | Some ts \<Rightarrow> ts)"

text \<open>
  The loop \<open>for (i = startIdx; i <= endIdx; i++)\<close> of the shift-click branch: an index
  past the end of \<open>tasks\<close> reads \<open>undefined\<close> and is skipped.
\<close>

definition addRange :: "task list \<Rightarrow> nat \<Rightarrow> nat \<Rightarrow> string list \<Rightarrow> string list" where
  "addRange tasks startIdx endIdx sel =
     foldl (\<lambda>next i. if i < length tasks then setAdd next (task_id (tasks ! i)) else next)
       sel [startIdx ..< Suc endIdx]"

text \<open>
  \<open>handleTaskSelect\<close>: the new selection (the updater given to \<open>setSelectedTaskIds\<close>
  applied to \<open>prev\<close>) and the new anchor.
\<close>

definition toggle :: "string list \<Rightarrow> string \<Rightarrow> string list" where
  "toggle next taskId = (if taskId \<in> set next then setDelete next taskId else setAdd next taskId)"

definition handleTaskSelect ::
  "host \<Rightarrow> boardState \<Rightarrow> lastClicked option \<Rightarrow> string \<Rightarrow> string \<Rightarrow> nat \<Rightarrow> mouseEvent
     \<Rightarrow> string list \<Rightarrow> string list \<times> lastClicked option" where
  "handleTaskSelect h st lastClicked taskId columnName position e prev =
     (let next =
        (case lastClicked of
           Some lc \<Rightarrow>
             if shiftKey e \<and> lc_columnName lc = columnName then
               (let tasks = filter (\<lambda>t. filterTask h t (bs_taskFilter st) (bs_customFields st))
                              (columnTasks (bs_columns st) columnName);
                    startIdx = min (lc_position lc) position;
                    endIdx = max (lc_position lc) position
                in addRange tasks startIdx endIdx prev)
             else if ctrlKey e \<or> metaKey e then toggle prev taskId
             else toggle prev taskId
         | None \<Rightarrow>
             if ctrlKey e \<or> metaKey e then toggle prev taskId
             else toggle prev taskId)
      in (next, Some \<lparr>lc_taskId = taskId, lc_columnName = columnName, lc_position = position\<rparr>))"

section \<open>Messages from the webview and the end of a drag\<close>




text \<open>\<open>xs.splice(i, 0, ...ys)\<close>: an index past the end inserts at the end.\<close>

definition spliceIn :: "'a list \<Rightarrow> nat \<Rightarrow> 'a list \<Rightarrow> 'a list" where
  "spliceIn xs i ys = take i xs @ ys @ drop i xs"



section \<open>Dates on the extension side\<close>

text \<open>
  A \<open>Date\<close> by its local calendar fields and the time within the day. The setters
  compute \<open>MakeDay\<close> of the fields they are given and read the fields back from the
  day number: a day past the end of its month is carried into the following months, a
  day before the first into the preceding ones. \<open>normDate\<close> is that carry on the
  fields. Daylight-saving shifts of the time within the day are left out.
\<close>

record jsdate =
  d_year :: int
  d_month :: int
  d_date :: int
  d_ms :: int

function normDate :: "int \<Rightarrow> int \<Rightarrow> int \<Rightarrow> int \<times> int \<times> int" where
  "normDate y m d =
     (if d > daysInMonth y m then
        (if m \<ge> 11 then normDate (y + 1) 0 (d - daysInMonth y m)
         else normDate y (m + 1) (d - daysInMonth y m))
      else if d < 1 then
        (if m \<le> 0 then normDate (y - 1) 11 (d + daysInMonth (y - 1) 11)
         else normDate y (m - 1) (d + daysInMonth y (m - 1)))
      else (y, m, d))"
  by pat_completeness auto
termination
  by (relation "measure (\<lambda>(y, m, d). if 1 \<le> d then nat d else nat (1 - d) + 32)")
     (auto simp: daysInMonth_def)

definition withFields :: "jsdate \<Rightarrow> int \<times> int \<times> int \<Rightarrow> jsdate" where
  "withFields dt f = (case f of (y, m, d) \<Rightarrow> dt\<lparr>d_year := y, d_month := m, d_date := d\<rparr>)"

definition setDate :: "jsdate \<Rightarrow> int \<Rightarrow> jsdate" where
  "setDate dt n = withFields dt (normDate (d_year dt) (d_month dt) n)"

definition setMonth :: "jsdate \<Rightarrow> int \<Rightarrow> jsdate" where
  "setMonth dt mo = withFields dt (normDate (d_year dt + mo div 12) (mo mod 12) (d_date dt))"

definition setFullYear :: "jsdate \<Rightarrow> int \<Rightarrow> jsdate" where
  "setFullYear dt yr = withFields dt (normDate yr (d_month dt) (d_date dt))"

text \<open>\<open>new Date(year, month, day)\<close>, at local midnight.\<close>

definition newDate :: "int \<Rightarrow> int \<Rightarrow> int \<Rightarrow> jsdate" where
  "newDate year month day =
     (let yr = (if 0 \<le> year \<and> year \<le> 99 then 1900 + year else year)
      in withFields \<lparr>d_year = yr, d_month = 0, d_date = 1, d_ms = 0\<rparr>
           (normDate (yr + month div 12) (month mod 12) day))"

section \<open>The recurrence of a completed task\<close>

record recurrence =
  rec_type :: string
  rec_interval :: "int option"
  rec_dayOfMonth :: "int option"

record attachment =
  at_type :: string
  at_path :: "string option"
  at_url :: "string option"
  at_title :: string

record xmetadata =
  xm_created :: "jsdate option"
  xm_due :: "jsdate option"
  xm_tags :: "string list option"
  xm_priority :: "string option"
  xm_assigned :: "string option"
  xm_attachments :: "attachment list option"
  xm_recurrence :: "recurrence option"

text \<open>A task as the store hands it to the extension; a task still to be created has no id.\<close>

record xtask =
  xt_id :: "string option"
  xt_name :: string
  xt_description :: string
  xt_metadata :: xmetadata
  xt_subTasks :: "subTask list"
  xt_relations :: "relation list"
  xt_comments :: "comment list"

record indexOptions =
  opt_hiddenColumns :: "string list option"
  opt_startedColumns :: "string list option"
  opt_completedColumns :: "string list option"
  opt_columnSorting :: "(string \<times> (string \<times> string) list) list option"
  opt_customFields :: "customField list option"

record kindex =
  ix_name :: string
  ix_description :: string
  ix_columns :: "(string \<times> string list) list"
  ix_options :: indexOptions

text \<open>\<open>rec.interval || 1\<close>\<close>

definition intervalOr1 :: "recurrence \<Rightarrow> int" where
  "intervalOr1 r = (case rec_interval r of None \<Rightarrow> 1 | Some i \<Rightarrow> if i = 0 then 1 else i)"

text \<open>The \<open>switch (rec.type)\<close> of \<open>handleRecurrence\<close>, from \<open>baseDate\<close> to \<open>nextDue\<close>.\<close>

definition nextDueDate :: "recurrence \<Rightarrow> jsdate \<Rightarrow> jsdate" where
  "nextDueDate r baseDate =
     (if rec_type r = ''daily'' then
        setDate baseDate (d_date baseDate + intervalOr1 r)
      else if rec_type r = ''weekly'' then
        setDate baseDate (d_date baseDate + intervalOr1 r * 7)
      else if rec_type r = ''monthly'' then
        (let nextDue = setMonth baseDate (d_month baseDate + intervalOr1 r)
         in case rec_dayOfMonth r of
              None \<Rightarrow> nextDue
            | Some dayOfMonth \<Rightarrow>
                (let lastDay = d_date (newDate (d_year nextDue) (d_month nextDue + 1) 0)
                 in setDate nextDue (min dayOfMonth lastDay)))
      else if rec_type r = ''annually'' then
        setFullYear baseDate (d_year baseDate + intervalOr1 r)
      else baseDate)"

definition newTaskFor :: "xtask \<Rightarrow> recurrence \<Rightarrow> jsdate \<Rightarrow> jsdate \<Rightarrow> xtask" where
  "newTaskFor t r today nextDue =
     \<lparr>xt_id = None,
      xt_name = xt_name t,
      xt_description = xt_description t,
      xt_metadata =
        \<lparr>xm_created = Some today,
         xm_due = Some nextDue,
         xm_tags = Some (case xm_tags (xt_metadata t) of None \<Rightarrow> [] | Some ts \<Rightarrow> ts),
         xm_priority = xm_priority (xt_metadata t),
         xm_assigned = xm_assigned (xt_metadata t),
         xm_attachments = xm_attachments (xt_metadata t),
         xm_recurrence = Some r\<rparr>,
      xt_subTasks = [],
      xt_relations = [],
      xt_comments = []\<rparr>"

text \<open>The first column that is neither completed nor hidden, else the first column.\<close>

definition firstOpenColumn :: "kindex \<Rightarrow> string option" where
  "firstOpenColumn index =
     (let completedColumns = (case opt_completedColumns (ix_options index) of None \<Rightarrow> [] | Some cs \<Rightarrow> cs);
          hiddenColumns = (case opt_hiddenColumns (ix_options index) of None \<Rightarrow> [] | Some cs \<Rightarrow> cs);
          names = map fst (ix_columns index)
      in case find (\<lambda>col. col \<notin> set completedColumns \<and> col \<notin> set hiddenColumns) names of
           Some col \<Rightarrow> Some col
         | None \<Rightarrow> (case names of [] \<Rightarrow> None | col # _ \<Rightarrow> Some col))"

section \<open>The store and the board panel\<close>

text \<open>
  What a call can throw: an object \<open>e\<close> with \<open>e instanceof Error\<close> and its message,
  or any other value.
\<close>

datatype thrown = ErrorObj string | OtherValue string

text \<open>
  The store is the \<open>Kanbn\<close> object of the library the extension is built on. Its
  operations are parameters here, over a store state \<open>'s\<close>; one that writes returns what
  it threw, if anything, with the state it left behind.
\<close>

record 's kanbn =
  getIndex :: "'s \<Rightarrow> thrown + kindex"
  loadAllTrackedTasks :: "'s \<Rightarrow> kindex \<Rightarrow> thrown + xtask list"
  hydrateTask :: "kindex \<Rightarrow> xtask \<Rightarrow> thrown + xtask"
  getDateFormat :: "kindex \<Rightarrow> string"
  moveTask :: "string \<Rightarrow> string \<Rightarrow> int \<Rightarrow> 's \<Rightarrow> thrown option \<times> 's"
  archiveTask :: "string \<Rightarrow> 's \<Rightarrow> thrown option \<times> 's"
  createTask :: "xtask \<Rightarrow> string option \<Rightarrow> 's \<Rightarrow> thrown option \<times> 's"

datatype call =
    CallGetIndex
  | CallLoadAllTrackedTasks
  | CallMoveTask string string int
  | CallArchiveTask string
  | CallCreateTask xtask "string option"

text \<open>Where an \<open>update()\<close> in flight is waiting, with the \<open>seq\<close> it captured.\<close>

datatype phase = AwaitIndex | AwaitTasks kindex

text \<open>The \<open>index\<close> message that \<open>update()\<close> posts to the webview.\<close>

record snapshot =
  sn_index :: kindex
  sn_tasks :: "xtask list"
  sn_hiddenColumns :: "string list"
  sn_startedColumns :: "string list"
  sn_completedColumns :: "string list"
  sn_columnSorting :: "(string \<times> (string \<times> string) list) list"
  sn_customFields :: "customField list"
  sn_dateFormat :: string
  sn_showBurndownButton :: "bool option"
  sn_showSprintButton :: "bool option"
  sn_kanbnFolder :: string

text \<open>The workspace configuration and the folder path the panel reads.\<close>

record config =
  showBurndownButton :: "bool option"
  showSprintButton :: "bool option"
  showTaskNotifications :: "bool option"
  kanbnFolder :: string

text \<open>
  The panel: its two private fields \<open>_updateSeq\<close> and \<open>_suppressUpdates\<close>, whether
  \<open>_panel\<close> is set, the store, the refreshes in flight, and what the panel has done so
  far: the store calls it issued, the error and information messages it showed, the
  snapshots it posted, the values thrown out of a \<open>void\<close> promise.
\<close>

record 's panel =
  store :: 's
  updateSeq :: nat
  suppressUpdates :: bool
  panelOpen :: bool
  pending :: "(nat \<times> phase) list"
  calls :: "call list"
  errorMessages :: "string list"
  informationMessages :: "string list"
  posted :: "snapshot list"
  unhandled :: "thrown list"

text \<open>The webview replaces its state by each snapshot it receives.\<close>

definition displayed :: "'s panel \<Rightarrow> snapshot option" where
  "displayed p = (if posted p = [] then None else Some (last (posted p)))"

definition showErrorMessage :: "string \<Rightarrow> 's panel \<Rightarrow> 's panel" where
  "showErrorMessage m p = p\<lparr>errorMessages := errorMessages p @ [m]\<rparr>"

definition callMoveTask ::
  "'s kanbn \<Rightarrow> string \<Rightarrow> string \<Rightarrow> int \<Rightarrow> 's panel \<Rightarrow> thrown option \<times> 's panel" where
  "callMoveTask k taskId columnName position p =
     (case moveTask k taskId columnName position (store p) of
        (exc, s') \<Rightarrow>
          (exc, p\<lparr>store := s', calls := calls p @ [CallMoveTask taskId columnName position]\<rparr>))"

definition callArchiveTask :: "'s kanbn \<Rightarrow> string \<Rightarrow> 's panel \<Rightarrow> thrown option \<times> 's panel" where
  "callArchiveTask k taskId p =
     (case archiveTask k taskId (store p) of
        (exc, s') \<Rightarrow> (exc, p\<lparr>store := s', calls := calls p @ [CallArchiveTask taskId]\<rparr>))"

definition callCreateTask ::
  "'s kanbn \<Rightarrow> xtask \<Rightarrow> string option \<Rightarrow> 's panel \<Rightarrow> thrown option \<times> 's panel" where
  "callCreateTask k t columnName p =
     (case createTask k t columnName (store p) of
        (exc, s') \<Rightarrow> (exc, p\<lparr>store := s', calls := calls p @ [CallCreateTask t columnName]\<rparr>))"

text \<open>
  \<open>handleRecurrence\<close>, with \<open>today\<close> for \<open>new Date()\<close>. It returns what it threw, if
  anything.
\<close>

definition handleRecurrence ::
  "'s kanbn \<Rightarrow> jsdate \<Rightarrow> string \<Rightarrow> string \<Rightarrow> 's panel \<Rightarrow> thrown option \<times> 's panel" where
  "handleRecurrence k today taskId targetColumn p =
     (let p1 = p\<lparr>calls := calls p @ [CallGetIndex]\<rparr>
      in case getIndex k (store p) of
           Inl e \<Rightarrow> (Some e, p1)
         | Inr index \<Rightarrow>
             (let completedColumns =
                    (case opt_completedColumns (ix_options index) of None \<Rightarrow> [] | Some cs \<Rightarrow> cs)
              in if targetColumn \<notin> set completedColumns then (None, p1)
                 else
                   (let p2 = p1\<lparr>calls := calls p1 @ [CallLoadAllTrackedTasks]\<rparr>
                    in case loadAllTrackedTasks k (store p) index of
                         Inl e \<Rightarrow> (Some e, p2)
                       | Inr allTasks \<Rightarrow>
                           (case find (\<lambda>t. xt_id t = Some taskId) allTasks of
                              None \<Rightarrow> (None, p2)
                            | Some t \<Rightarrow>
                                (case xm_recurrence (xt_metadata t) of
                                   None \<Rightarrow> (None, p2)
                                 | Some r \<Rightarrow>
                                     (let baseDate = (case xm_due (xt_metadata t) of
                                                        Some due \<Rightarrow> due
                                                      | None \<Rightarrow> today);
                                          nextDue = nextDueDate r baseDate;
                                          newTask = newTaskFor t r today nextDue
                                      in callCreateTask k newTask (firstOpenColumn index) p2))))))"

text \<open>
  \<open>for (const x of xs) { await body(x) }\<close> inside a \<open>try\<close>: the first throw leaves the
  loop.
\<close>

fun forOf :: "('a \<Rightarrow> 'st \<Rightarrow> thrown option \<times> 'st) \<Rightarrow> 'a list \<Rightarrow> 'st \<Rightarrow> thrown option \<times> 'st" where
  "forOf body [] st = (None, st)"
| "forOf body (x # xs) st =
     (case body x st of
        (Some e, st') \<Rightarrow> (Some e, st')
      | (None, st') \<Rightarrow> forOf body xs st')"

text \<open>
  \<open>catch (e) { if (e instanceof Error) { void showErrorMessage(e.message) } else { throw e } }\<close>
\<close>

definition catchShow :: "thrown option \<times> 's panel \<Rightarrow> thrown option \<times> 's panel" where
  "catchShow r =
     (case r of
        (None, p) \<Rightarrow> (None, p)
      | (Some (ErrorObj m), p) \<Rightarrow> (None, showErrorMessage m p)
      | (Some (OtherValue v), p) \<Rightarrow> (Some (OtherValue v), p))"

text \<open>
  \<open>update()\<close> up to its first \<open>await\<close>: nothing while updates are suppressed, else the
  counter is incremented, captured as \<open>seq\<close>, and \<open>getIndex\<close> is issued.
\<close>

definition updateStart :: "'s panel \<Rightarrow> 's panel" where
  "updateStart p =
     (if suppressUpdates p then p
      else (let seq = updateSeq p + 1
            in p\<lparr>updateSeq := seq,
                 pending := pending p @ [(seq, AwaitIndex)],
                 calls := calls p @ [CallGetIndex]\<rparr>))"

definition plural :: "nat \<Rightarrow> string" where
  "plural n = (if n = 1 then [] else ''s'')"

definition bulkMoveBody ::
  "'s kanbn \<Rightarrow> jsdate \<Rightarrow> string \<Rightarrow> string \<Rightarrow> 's panel \<Rightarrow> thrown option \<times> 's panel" where
  "bulkMoveBody k today targetColumn taskId p =
     (case callMoveTask k taskId targetColumn (- 1) p of
        (Some e, p') \<Rightarrow> (Some e, p')
      | (None, p') \<Rightarrow> handleRecurrence k today taskId targetColumn p')"

text \<open>
  The \<open>kanbn.bulkMove\<close> handler. The result is the value the handler's promise is
  rejected with, if any.
\<close>

definition bulkMove ::
  "'s kanbn \<Rightarrow> config \<Rightarrow> jsdate \<Rightarrow> string \<Rightarrow> string list \<Rightarrow> 's panel \<Rightarrow> thrown option \<times> 's panel" where
  "bulkMove k cfg today targetColumn taskIds p =
     (case catchShow (forOf (bulkMoveBody k today targetColumn) taskIds (p\<lparr>suppressUpdates := True\<rparr>)) of
        (Some e, p') \<Rightarrow> (Some e, p'\<lparr>suppressUpdates := False\<rparr>)
      | (None, p') \<Rightarrow>
          (let p2 = updateStart (p'\<lparr>suppressUpdates := False\<rparr>)
           in (None,
               if showTaskNotifications cfg = Some True then
                 p2\<lparr>informationMessages := informationMessages p2 @
                      [''Moved '' @ stringOfInt (int (length taskIds)) @ '' task''
                       @ plural (length taskIds) @ '' to '' @ targetColumn @ ''.'']\<rparr>
               else p2)))"

text \<open>The \<open>kanbn.bulkArchive\<close> handler.\<close>

definition bulkArchive ::
  "'s kanbn \<Rightarrow> config \<Rightarrow> string list \<Rightarrow> 's panel \<Rightarrow> thrown option \<times> 's panel" where
  "bulkArchive k cfg archiveIds p =
     (case catchShow (forOf (callArchiveTask k) archiveIds (p\<lparr>suppressUpdates := True\<rparr>)) of
        (Some e, p') \<Rightarrow> (Some e, p'\<lparr>suppressUpdates := False\<rparr>)
      | (None, p') \<Rightarrow>
          (let p2 = updateStart (p'\<lparr>suppressUpdates := False\<rparr>)
           in (None,
               if showTaskNotifications cfg = Some True then
                 p2\<lparr>informationMessages := informationMessages p2 @
                      [''Archived '' @ stringOfInt (int (length archiveIds)) @ '' task''
                       @ plural (length archiveIds) @ ''.'']\<rparr>
               else p2)))"



section \<open>Refreshes in flight\<close>

text \<open>
  An \<open>update()\<close> runs in three pieces, between which other handlers run: its start, the
  piece after \<open>getIndex\<close> settles, and the piece after \<open>loadAllTrackedTasks\<close> settles.
  The events carry the \<open>seq\<close> that the continuation captured and what the store call
  settled with.
\<close>

datatype event =
    UpdateCalled
  | IndexSettled nat "thrown + kindex"
  | TasksSettled nat "thrown + xtask list"

fun hydrateAll :: "(xtask \<Rightarrow> thrown + xtask) \<Rightarrow> xtask list \<Rightarrow> thrown + xtask list" where
  "hydrateAll f [] = Inr []"
| "hydrateAll f (t # ts) =
     (case f t of
        Inl e \<Rightarrow> Inl e
      | Inr t' \<Rightarrow> (case hydrateAll f ts of Inl e \<Rightarrow> Inl e | Inr ts' \<Rightarrow> Inr (t' # ts')))"

text \<open>
  The \<open>catch\<close> of \<open>update()\<close>: an \<open>Error\<close> is shown, anything else is thrown again, out
  of a promise nobody awaits.
\<close>

definition updateCatch :: "thrown \<Rightarrow> 's panel \<Rightarrow> 's panel" where
  "updateCatch e p =
     (case e of
        ErrorObj m \<Rightarrow> showErrorMessage m p
      | OtherValue v \<Rightarrow> p\<lparr>unhandled := unhandled p @ [OtherValue v]\<rparr>)"

definition orEmpty :: "'a list option \<Rightarrow> 'a list" where
  "orEmpty v = (case v of None \<Rightarrow> [] | Some xs \<Rightarrow> xs)"

definition indexMessage :: "'s kanbn \<Rightarrow> config \<Rightarrow> kindex \<Rightarrow> xtask list \<Rightarrow> snapshot" where
  "indexMessage k cfg index tasks =
     \<lparr>sn_index = index,
      sn_tasks = tasks,
      sn_hiddenColumns = orEmpty (opt_hiddenColumns (ix_options index)),
      sn_startedColumns = orEmpty (opt_startedColumns (ix_options index)),
      sn_completedColumns = orEmpty (opt_completedColumns (ix_options index)),
      sn_columnSorting = orEmpty (opt_columnSorting (ix_options index)),
      sn_customFields = orEmpty (opt_customFields (ix_options index)),
      sn_dateFormat = getDateFormat k index,
      sn_showBurndownButton = showBurndownButton cfg,
      sn_showSprintButton = showSprintButton cfg,
      sn_kanbnFolder = kanbnFolder cfg\<rparr>"

definition forget :: "nat \<Rightarrow> 's panel \<Rightarrow> 's panel" where
  "forget seq p = p\<lparr>pending := filter (\<lambda>(s, ph). s \<noteq> seq) (pending p)\<rparr>"

definition step :: "'s kanbn \<Rightarrow> config \<Rightarrow> event \<Rightarrow> 's panel \<Rightarrow> 's panel" where
  "step k cfg ev p =
     (case ev of
        UpdateCalled \<Rightarrow> updateStart p
      | IndexSettled seq r \<Rightarrow>
          (case map_of (pending p) seq of
             Some AwaitIndex \<Rightarrow>
               (case r of
                  Inl e \<Rightarrow> updateCatch e (forget seq p)
                | Inr index \<Rightarrow>
                    if seq \<noteq> updateSeq p then forget seq p
                    else (forget seq p)
                           \<lparr>pending := pending (forget seq p) @ [(seq, AwaitTasks index)],
                            calls := calls p @ [CallLoadAllTrackedTasks]\<rparr>)
           | _ \<Rightarrow> p)
      | TasksSettled seq r \<Rightarrow>
          (case map_of (pending p) seq of
             Some (AwaitTasks index) \<Rightarrow>
               (case (case r of Inl e \<Rightarrow> Inl e | Inr loaded \<Rightarrow> hydrateAll (hydrateTask k index) loaded) of
                  Inl e \<Rightarrow> updateCatch e (forget seq p)
                | Inr tasks \<Rightarrow>
                    if seq \<noteq> updateSeq p then forget seq p
                    else if panelOpen p then
                      (forget seq p)\<lparr>posted := posted p @ [indexMessage k cfg index tasks]\<rparr>
                    else forget seq p)
           | _ \<Rightarrow> p))"

definition run :: "'s kanbn \<Rightarrow> config \<Rightarrow> event list \<Rightarrow> 's panel \<Rightarrow> 's panel" where
  "run k cfg evs p = foldl (\<lambda>q ev. step k cfg ev q) p evs"

section \<open>Predicates of the statements\<close>



text \<open>No refresh in flight has captured a \<open>seq\<close> beyond the counter.\<close>

definition inFlightBounded :: "'s panel \<Rightarrow> bool" where
  "inFlightBounded p = list_all (\<lambda>(s, ph). s \<le> updateSeq p) (pending p)"

text \<open>An event that settles a store call of the refresh that captured \<open>seq\<close>.\<close>

definition settles :: "nat \<Rightarrow> event \<Rightarrow> bool" where
  "settles seq ev =
     (case ev of
        UpdateCalled \<Rightarrow> False
      | IndexSettled s r \<Rightarrow> s = seq
      | TasksSettled s r \<Rightarrow> s = seq)"

section \<open>Example data\<close>

text \<open>A host whose clock stands at 10 March 2025, 00:00 UTC, in the UTC time zone.\<close>

definition exHost :: host where
  "exHost = \<lparr>now = 1741564800000, dateOfString = (\<lambda>s. None), utcOfLocal = (\<lambda>t. t)\<rparr>"

definition bareTask :: "string \<Rightarrow> string \<Rightarrow> task" where
  "bareTask i n =
     \<lparr>task_id = i, task_name = n, task_description = [],
      task_metadata = \<lparr>md_due = None, md_assigned = None, md_tags = None, md_other = Map.empty\<rparr>,
      task_relations = [], task_subTasks = [], task_comments = []\<rparr>"

definition reportTask :: task where
  "reportTask =
     (bareTask ''write-report'' ''Write report'')
       \<lparr>task_metadata :=
          \<lparr>md_due = Some ''09/03/2025'', md_assigned = None, md_tags = Some [''urgent''],
           md_other = Map.empty\<rparr>\<rparr>"

definition blockedField :: customField where
  "blockedField = \<lparr>cf_name = ''Blocked'', cf_type = TBoolean\<rparr>"

definition blockedTask :: task where
  "blockedTask =
     (bareTask ''fix-login'' ''Fix login'')
       \<lparr>task_metadata :=
          \<lparr>md_due = None, md_assigned = None, md_tags = None,
           md_other = [''Blocked'' \<mapsto> JNull]\<rparr>\<rparr>"

definition overdueField :: customField where
  "overdueField = \<lparr>cf_name = ''overdue'', cf_type = TBoolean\<rparr>"

definition flaggedTask :: task where
  "flaggedTask =
     (bareTask ''pay-rent'' ''Pay rent'')
       \<lparr>task_metadata :=
          \<lparr>md_due = None, md_assigned = None, md_tags = None,
           md_other = [''overdue'' \<mapsto> JNull]\<rparr>\<rparr>"

text \<open>A board with one column of five cards and no filter.\<close>

definition exBoard :: boardState where
  "exBoard =
     \<lparr>bs_columns = [(''Todo'', [bareTask ''a'' ''A'', bareTask ''b'' ''B'', bareTask ''c'' ''C'',
                                bareTask ''d'' ''D'', bareTask ''e'' ''E''])],
      bs_taskFilter = [],
      bs_customFields = []\<rparr>"

definition shiftClick :: mouseEvent where
  "shiftClick = \<lparr>shiftKey = True, ctrlKey = False, metaKey = False\<rparr>"

definition anchorB :: lastClicked where
  "anchorB = \<lparr>lc_taskId = ''b'', lc_columnName = ''Todo'', lc_position = 1\<rparr>"



definition monthly31 :: recurrence where
  "monthly31 = \<lparr>rec_type = ''monthly'', rec_interval = Some 1, rec_dayOfMonth = Some 31\<rparr>"

definition jan31 :: jsdate where
  "jan31 = \<lparr>d_year = 2025, d_month = 0, d_date = 31, d_ms = 0\<rparr>"

definition exToday :: jsdate where
  "exToday = \<lparr>d_year = 2025, d_month = 1, d_date = 10, d_ms = 0\<rparr>"

text \<open>
  A store in memory, one of the stores the handlers can be given: the columns with
  their task ids. Moving or archiving a task that is in no column throws an \<open>Error\<close>.
  A move takes the id out of its column, clamps the position between 0 and the length of
  the target column, and splices the id in there; so a move to position \<open>-1\<close> puts the
  task first in the target column.
\<close>

definition memIndex :: "(string \<times> string list) list \<Rightarrow> kindex" where
  "memIndex s =
     \<lparr>ix_name = ''Board'', ix_description = [], ix_columns = s,
      ix_options =
        \<lparr>opt_hiddenColumns = None, opt_startedColumns = None,
         opt_completedColumns = Some [''Done''], opt_columnSorting = None,
         opt_customFields = None\<rparr>\<rparr>"

definition bareXTask :: "string \<Rightarrow> xtask" where
  "bareXTask i =
     \<lparr>xt_id = Some i, xt_name = i, xt_description = [],
      xt_metadata =
        \<lparr>xm_created = None, xm_due = None, xm_tags = None, xm_priority = None,
         xm_assigned = None, xm_attachments = None, xm_recurrence = None\<rparr>,
      xt_subTasks = [], xt_relations = [], xt_comments = []\<rparr>"

definition clampPosition :: "int \<Rightarrow> nat \<Rightarrow> nat" where
  "clampPosition pos n = nat (max (min pos (int n)) 0)"

definition memMove ::
  "string \<Rightarrow> string \<Rightarrow> int \<Rightarrow> (string \<times> string list) list
     \<Rightarrow> thrown option \<times> (string \<times> string list) list" where
  "memMove taskId col pos s =
     (if taskId \<in> set (concat (map snd s)) then
        (None,
         map (\<lambda>(c, ids).
                (let others = filter (\<lambda>i. i \<noteq> taskId) ids
                 in (c, if c = col then spliceIn others (clampPosition pos (length others)) [taskId]
                        else others))) s)
      else (Some (ErrorObj (''No task file found with id '' @ taskId)), s))"

definition memArchive ::
  "string \<Rightarrow> (string \<times> string list) list \<Rightarrow> thrown option \<times> (string \<times> string list) list" where
  "memArchive taskId s =
     (if taskId \<in> set (concat (map snd s)) then
        (None, map (\<lambda>(c, ids). (c, filter (\<lambda>i. i \<noteq> taskId) ids)) s)
      else (Some (ErrorObj (''No task file found with id '' @ taskId)), s))"

definition memKanbn :: "(string \<times> string list) list kanbn" where
  "memKanbn =
     \<lparr>getIndex = (\<lambda>s. Inr (memIndex s)),
      loadAllTrackedTasks = (\<lambda>s index. Inr (map bareXTask (concat (map snd (ix_columns index))))),
      hydrateTask = (\<lambda>index t. Inr t),
      getDateFormat = (\<lambda>index. ''dd/mm/yyyy''),
      moveTask = memMove,
      archiveTask = memArchive,
      createTask = (\<lambda>t col s. (None, s))\<rparr>"

text \<open>The same store, but a move or an archive throws a value that is not an \<open>Error\<close>.\<close>

definition rudeKanbn :: "(string \<times> string list) list kanbn" where
  "rudeKanbn =
     memKanbn\<lparr>moveTask := (\<lambda>taskId col pos s. (Some (OtherValue ''cancelled''), s)),
              archiveTask := (\<lambda>taskId s. (Some (OtherValue ''cancelled''), s))\<rparr>"

text \<open>The same store, holding the task whose rule is day 31 of every month.\<close>

definition rentTask :: xtask where
  "rentTask =
     (bareXTask ''pay-rent'')
       \<lparr>xt_metadata :=
          \<lparr>xm_created = None, xm_due = Some jan31, xm_tags = None, xm_priority = None,
           xm_assigned = None, xm_attachments = None, xm_recurrence = Some monthly31\<rparr>\<rparr>"

definition rentKanbn :: "(string \<times> string list) list kanbn" where
  "rentKanbn = memKanbn\<lparr>loadAllTrackedTasks := (\<lambda>s index. Inr [rentTask])\<rparr>"

definition newPanel :: "'s \<Rightarrow> 's panel" where
  "newPanel s =
     \<lparr>store = s, updateSeq = 0, suppressUpdates = False, panelOpen = True, pending = [],
      calls = [], errorMessages = [], informationMessages = [], posted = [], unhandled = []\<rparr>"

definition exConfig :: config where
  "exConfig =
     \<lparr>showBurndownButton = None, showSprintButton = None, showTaskNotifications = None,
      kanbnFolder = ''.kanbn''\<rparr>"

definition exStore :: "(string \<times> string list) list" where
  "exStore = [(''Todo'', [''t1'', ''t3'']), (''Done'', [])]"

section \<open>The filter\<close>

lemma split_not_Nil: "split sep s \<noteq> []"
  by (induction s) (auto split: list.splits)

lemma split_append: "split sep (a @ sep # b) = split sep a @ split sep b"
proof (induction a)
  case Nil
  then show ?case by simp
next
  case (Cons c cs)
  then show ?case
    by (cases "split sep cs") (auto simp: split_not_Nil split: list.splits)
qed

lemma split_no_sep: "sep \<notin> set s \<Longrightarrow> split sep s = [s]"
  by (induction s) auto

lemma length_split: "length (split sep s) = Suc (length (filter (\<lambda>c. c = sep) s))"
  by (induction s) (auto simp: split_not_Nil split: list.splits)

lemma foldl_result:
  "foldl (\<lambda>result f. if P f then result else False) b xs = (b \<and> list_all P xs)"
  by (induction xs arbitrary: b) auto

text \<open>The loop over the sections is the conjunction of the sections' matches.\<close>

lemma filterTask_all:
  "filterTask h t taskFilter customFields =
     list_all (sectionMatches h t customFields) (split CHR '' '' taskFilter)"
  by (simp add: filterTask_def foldl_result)

lemma filterTask_single:
  "CHR '' '' \<notin> set f \<Longrightarrow> filterTask h t f s = sectionMatches h t s f"
  by (simp add: filterTask_all split_no_sep)

lemma filterTask_append:
  "filterTask h t (f1 @ CHR '' '' # f2) s = (filterTask h t f1 s \<and> filterTask h t f2 s)"
  by (simp add: filterTask_all split_append)

lemma customFieldMap_None:
  "customFieldMap s key = None \<longleftrightarrow> key \<notin> (\<lambda>cf. toLowerCase (cf_name cf)) ` set s"
  by (simp add: customFieldMap_def map_of_eq_None_iff image_image)

text \<open>In a schema whose names differ beyond case, a name resolves to its own entry.\<close>

lemma customFieldMap_distinct:
  assumes "distinct (map (\<lambda>cf. toLowerCase (cf_name cf)) s)" and "cf \<in> set s"
  shows "customFieldMap s (toLowerCase (cf_name cf)) = Some cf"
proof -
  let ?ps = "rev (map (\<lambda>c. (toLowerCase (cf_name c), c)) s)"
  have "distinct (map fst ?ps)"
    using assms(1) by (simp add: rev_map [symmetric] comp_def)
  moreover have "(toLowerCase (cf_name cf), cf) \<in> set ?ps"
    using assms(2) by auto
  ultimately show ?thesis
    unfolding customFieldMap_def by (rule map_of_is_SomeI)
qed

lemma sectionMatches_unknown:
  assumes "split CHR '':'' f = [k, v]"
    and "toLowerCase k \<notin> set filterProperties"
    and "toLowerCase k \<notin> (\<lambda>cf. toLowerCase (cf_name cf)) ` set s"
  shows "sectionMatches h t s f"
  using assms by (simp add: sectionMatches_def customFieldMap_None)

lemma sectionMatches_multi_colon:
  assumes "2 \<le> length (filter (\<lambda>c. c = CHR '':'') f)"
  shows "sectionMatches h t s f"
proof -
  have "3 \<le> length (split CHR '':'' f)"
    using assms by (simp add: length_split)
  then show ?thesis
    by (simp add: sectionMatches_def Let_def)
qed

lemma sectionMatches_boolean:
  assumes "CHR '':'' \<notin> set tok"
    and "toLowerCase tok \<noteq> ''overdue''"
    and "customFieldMap s (toLowerCase tok) = Some cf"
    and "cf_type cf = TBoolean"
  shows "sectionMatches h t s tok
         = (metadataGet (task_metadata t) (cf_name cf) = Some JNull
            \<or> metadataGet (task_metadata t) (cf_name cf) = Some JUndefined)"
  using assms by (auto simp: sectionMatches_def split_no_sep split: option.splits)

text \<open>
  Claim C5. For every task, schema and filter strings \<open>f1\<close> and \<open>f2\<close>, the filter
  \<open>f1 + " " + f2\<close> matches exactly when \<open>f1\<close> matches and \<open>f2\<close> matches: the filter
  string is cut at every space into sections, and the task matches when every section
  does. There is no way for a section to make a task match that another section
  rejects.
\<close>

theorem filterTask_and_composition:
  "filterTask h t (f1 @ '' '' @ f2) s = (filterTask h t f1 s \<and> filterTask h t f2 s)
   \<and> filterTask h t f s = list_all (sectionMatches h t s) (split CHR '' '' f)"
proof
  show "filterTask h t (f1 @ '' '' @ f2) s = (filterTask h t f1 s \<and> filterTask h t f2 s)"
    by (simp add: filterTask_append)
  show "filterTask h t f s = list_all (sectionMatches h t s) (split CHR '' '' f)"
    by (rule filterTask_all)
qed

text \<open>
  The specification's example: a task due on 09/03/2025 and tagged \<open>urgent\<close>, seen on
  10 March 2025, matches \<open>tag:urgent overdue\<close>, since it matches both halves.
\<close>

theorem filterTask_and_composition_witness:
  "filterTask exHost reportTask (''tag:urgent'' @ '' '' @ ''overdue'') []"
proof -
  have a: "filterTask exHost reportTask ''tag:urgent'' []" by code_simp
  have b: "filterTask exHost reportTask ''overdue'' []" by code_simp
  from a b
    filterTask_and_composition [of exHost reportTask "''tag:urgent''" "''overdue''" "[]" "[]"]
  show ?thesis by blast
qed

text \<open>
  Claim C7. A \<open>key:value\<close> section whose key is none of the six property names and no
  custom field's name (all compared in lower case), and a section with more than one
  colon, match every task: alone as a filter they keep every task, and added to a filter
  they change nothing.
\<close>

theorem unknown_section_matches:
  assumes "CHR '' '' \<notin> set f"
    and "(\<exists>k v. f = k @ '':'' @ v \<and> CHR '':'' \<notin> set k \<and> CHR '':'' \<notin> set v
            \<and> toLowerCase k \<notin> set filterProperties
            \<and> toLowerCase k \<notin> (\<lambda>cf. toLowerCase (cf_name cf)) ` set s)
         \<or> 2 \<le> length (filter (\<lambda>c. c = CHR '':'') f)"
  shows "sectionMatches h t s f \<and> filterTask h t f s
         \<and> filterTask h t (g @ '' '' @ f) s = filterTask h t g s"
proof -
  have m: "sectionMatches h t s f"
    using assms(2)
  proof
    assume "\<exists>k v. f = k @ '':'' @ v \<and> CHR '':'' \<notin> set k \<and> CHR '':'' \<notin> set v
            \<and> toLowerCase k \<notin> set filterProperties
            \<and> toLowerCase k \<notin> (\<lambda>cf. toLowerCase (cf_name cf)) ` set s"
    then obtain k v where f: "f = k @ '':'' @ v" and k: "CHR '':'' \<notin> set k" and v: "CHR '':'' \<notin> set v"
      and u: "toLowerCase k \<notin> set filterProperties"
             "toLowerCase k \<notin> (\<lambda>cf. toLowerCase (cf_name cf)) ` set s"
      by blast
    have "split CHR '':'' f = [k, v]"
      using k v by (simp add: f split_append split_no_sep)
    then show ?thesis using u by (rule sectionMatches_unknown)
  next
    assume "2 \<le> length (filter (\<lambda>c. c = CHR '':'') f)"
    then show ?thesis by (rule sectionMatches_multi_colon)
  qed
  then have "filterTask h t f s"
    using assms(1) by (simp add: filterTask_single)
  with m show ?thesis by (simp add: filterTask_append)
qed

theorem unknown_section_matches_witness:
  "filterTask exHost reportTask ''foo:bar'' [blockedField]
   \<and> filterTask exHost reportTask ''a:b:c'' [blockedField]
   \<and> filterTask exHost reportTask (''nothing-like-it'' @ '' '' @ ''foo:bar'') [blockedField]
     = filterTask exHost reportTask ''nothing-like-it'' [blockedField]"
proof -
  have s1: "CHR '' '' \<notin> set ''foo:bar''" and s2: "CHR '' '' \<notin> set ''a:b:c''" by simp_all
  have "''foo:bar'' = ''foo'' @ '':'' @ ''bar'' \<and> CHR '':'' \<notin> set ''foo'' \<and> CHR '':'' \<notin> set ''bar''
        \<and> toLowerCase ''foo'' \<notin> set filterProperties
        \<and> toLowerCase ''foo'' \<notin> (\<lambda>cf. toLowerCase (cf_name cf)) ` set [blockedField]"
    by (simp add: toLowerCase_def lowerChar_def filterProperties_def blockedField_def)
  then have h1: "(\<exists>k v. ''foo:bar'' = k @ '':'' @ v \<and> CHR '':'' \<notin> set k \<and> CHR '':'' \<notin> set v
            \<and> toLowerCase k \<notin> set filterProperties
            \<and> toLowerCase k \<notin> (\<lambda>cf. toLowerCase (cf_name cf)) ` set [blockedField])
         \<or> 2 \<le> length (filter (\<lambda>c. c = CHR '':'') ''foo:bar'')"
    by blast
  have h2: "(\<exists>k v. ''a:b:c'' = k @ '':'' @ v \<and> CHR '':'' \<notin> set k \<and> CHR '':'' \<notin> set v
            \<and> toLowerCase k \<notin> set filterProperties
            \<and> toLowerCase k \<notin> (\<lambda>cf. toLowerCase (cf_name cf)) ` set [blockedField])
         \<or> 2 \<le> length (filter (\<lambda>c. c = CHR '':'') ''a:b:c'')"
    by simp
  from unknown_section_matches [OF s1 h1, of exHost reportTask "''nothing-like-it''"]
       unknown_section_matches [OF s2 h2, of exHost reportTask "[]"]
  show ?thesis by simp
qed

text \<open>
  Claim C4, as amended. A bare token other than \<open>overdue\<close> that the filter resolves, in
  lower case, to a boolean entry of the schema (the last entry whose lower-cased name is
  the lower-cased token) matches the task if and only if that entry's name is a key of
  the task's metadata and the value stored under it is null or undefined.
\<close>

theorem boolean_token_presence:
  assumes "CHR '' '' \<notin> set tok" and "CHR '':'' \<notin> set tok"
    and "toLowerCase tok \<noteq> ''overdue''"
    and "customFieldMap s (toLowerCase tok) = Some cf"
    and "cf_type cf = TBoolean"
  shows "filterTask h t tok s
         = (metadataGet (task_metadata t) (cf_name cf) = Some JNull
            \<or> metadataGet (task_metadata t) (cf_name cf) = Some JUndefined)"
  using assms by (simp add: filterTask_single sectionMatches_boolean)

theorem boolean_token_presence_witness:
  "filterTask exHost blockedTask ''blocked'' [blockedField]
   \<and> \<not> filterTask exHost reportTask ''blocked'' [blockedField]"
proof -
  have a: "CHR '' '' \<notin> set ''blocked''" and b: "CHR '':'' \<notin> set ''blocked''"
    and c: "toLowerCase ''blocked'' \<noteq> ''overdue''"
    by (simp_all add: toLowerCase_def lowerChar_def)
  have d: "customFieldMap [blockedField] (toLowerCase ''blocked'') = Some blockedField"
    by code_simp
  have e: "cf_type blockedField = TBoolean"
    by (simp add: blockedField_def)
  have f: "metadataGet (task_metadata blockedTask) (cf_name blockedField) = Some JNull"
    by code_simp
  have g: "metadataGet (task_metadata reportTask) (cf_name blockedField) = None"
    by code_simp
  from boolean_token_presence [OF a b c d e, of exHost blockedTask]
       boolean_token_presence [OF a b c d e, of exHost reportTask] f g
  show ?thesis by simp
qed

text \<open>
  The claim as the specification words it fails for a boolean field named \<open>overdue\<close>:
  the token is taken by the due-date test first. The task below carries the field with
  the value null and has no due date, and the token does not match it.
\<close>

theorem boolean_field_named_overdue:
  "overdueField \<in> set [overdueField]
   \<and> cf_type overdueField = TBoolean
   \<and> toLowerCase ''overdue'' = toLowerCase (cf_name overdueField)
   \<and> metadataGet (task_metadata flaggedTask) (cf_name overdueField) = Some JNull
   \<and> \<not> filterTask exHost flaggedTask ''overdue'' [overdueField]"
proof -
  have "metadataGet (task_metadata flaggedTask) (cf_name overdueField) = Some JNull"
    by code_simp
  moreover have "\<not> filterTask exHost flaggedTask ''overdue'' [overdueField]"
    by code_simp
  ultimately show ?thesis
    by (simp add: overdueField_def)
qed

section \<open>Range selection\<close>

lemma set_foldl_add:
  "set (foldl (\<lambda>next i. if i < length tasks then setAdd next (task_id (tasks ! i)) else next) sel js)
   = set sel \<union> {task_id (tasks ! i) | i. i \<in> set js \<and> i < length tasks}"
  by (induction js arbitrary: sel) (auto simp: setAdd_def)

text \<open>The elements of a list at the positions from \<open>lo\<close> to \<open>hi\<close>, as a slice.\<close>

lemma slice_set:
  "set (take (Suc hi - lo) (drop lo xs)) = {xs ! i | i. lo \<le> i \<and> i \<le> hi \<and> i < length xs}"
proof -
  have "set (take (Suc hi - lo) (drop lo xs))
        = {take (Suc hi - lo) (drop lo xs) ! i | i. i < length (take (Suc hi - lo) (drop lo xs))}"
    by (simp only: set_conv_nth)
  also have "\<dots> = {xs ! (lo + i) | i. i < Suc hi - lo \<and> i < length xs - lo}"
    by (rule Collect_cong) (auto intro!: ex_cong1)
  also have "\<dots> = {xs ! i | i. lo \<le> i \<and> i \<le> hi \<and> i < length xs}"
  proof (intro set_eqI iffI; clarify)
    fix i assume "i < Suc hi - lo" "i < length xs - lo"
    then show "\<exists>j. xs ! (lo + i) = xs ! j \<and> lo \<le> j \<and> j \<le> hi \<and> j < length xs"
      by (intro exI [of _ "lo + i"]) auto
  next
    fix i assume "lo \<le> i" "i \<le> hi" "i < length xs"
    then show "\<exists>j. xs ! i = xs ! (lo + j) \<and> j < Suc hi - lo \<and> j < length xs - lo"
      by (intro exI [of _ "i - lo"]) auto
  qed
  finally show ?thesis .
qed

lemma set_addRange:
  "set (addRange tasks lo hi sel)
   = set sel \<union> set (map task_id (take (Suc hi - lo) (drop lo tasks)))"
proof -
  have "set (addRange tasks lo hi sel)
        = set sel \<union> {task_id (tasks ! i) | i. lo \<le> i \<and> i \<le> hi \<and> i < length tasks}"
    unfolding addRange_def set_foldl_add by auto
  also have "{task_id (tasks ! i) | i. lo \<le> i \<and> i \<le> hi \<and> i < length tasks}
             = task_id ` {tasks ! i | i. lo \<le> i \<and> i \<le> hi \<and> i < length tasks}"
    by auto
  finally show ?thesis
    by (simp add: slice_set)
qed

text \<open>The empty filter on the empty schema keeps every task.\<close>

lemma filterTask_empty: "filterTask h t [] []"
proof -
  have "str_includes (toLowerCase (task_id t)) []"
    by (cases "toLowerCase (task_id t)") simp_all
  then show ?thesis
    by (simp add: filterTask_def sectionMatches_def customFieldMap_def toLowerCase_def Let_def)
qed

text \<open>
  Claim C6. A shift-click in the column of the anchor makes the selection the prior
  selection together with the ids of the tasks that stand, in the column's filtered
  view, at the positions from the smaller to the larger of the anchor's position and the
  clicked position, both included; nothing is removed. In the view \<open>[a,b,c,d,e]\<close> with
  the anchor at \<open>b\<close> (index 1), a shift-click on \<open>d\<close> (index 3) adds \<open>b\<close>, \<open>c\<close>, \<open>d\<close>.
\<close>

theorem shift_click_adds_range:
  assumes "shiftKey e" and "lc_columnName lc = columnName"
  shows "set (fst (handleTaskSelect h st (Some lc) taskId columnName position e prev))
         = set prev \<union>
           set (map task_id
                 (take (Suc (max (lc_position lc) position) - min (lc_position lc) position)
                   (drop (min (lc_position lc) position)
                     (filter (\<lambda>t. filterTask h t (bs_taskFilter st) (bs_customFields st))
                        (columnTasks (bs_columns st) columnName)))))"
  using assms by (simp add: handleTaskSelect_def Let_def set_addRange)

theorem shift_click_adds_range_witness:
  "set (fst (handleTaskSelect exHost exBoard (Some anchorB) ''d'' ''Todo'' 3 shiftClick [''x'']))
   = {''x'', ''b'', ''c'', ''d''}"
proof -
  have a: "shiftKey shiftClick" by (simp add: shiftClick_def)
  have b: "lc_columnName anchorB = ''Todo''" by (simp add: anchorB_def)
  have v: "filter (\<lambda>t. filterTask exHost t (bs_taskFilter exBoard) (bs_customFields exBoard))
             (columnTasks (bs_columns exBoard) ''Todo'')
           = [bareTask ''a'' ''A'', bareTask ''b'' ''B'', bareTask ''c'' ''C'',
              bareTask ''d'' ''D'', bareTask ''e'' ''E'']"
    by (simp add: exBoard_def columnTasks_def filterTask_empty)
  have p: "lc_position anchorB = 1" by (simp add: anchorB_def)
  from shift_click_adds_range [OF a b, of exHost exBoard "''d''" 3 "[''x'']"]
  show ?thesis
    unfolding v p by (simp add: bareTask_def) blast
qed

section \<open>The next due date\<close>

lemma normDate_in_range:
  "1 \<le> d \<Longrightarrow> d \<le> daysInMonth y m \<Longrightarrow> normDate y m d = (y, m, d)"
  by simp

text \<open>
  From 28 January the month step stays in February and the clamp gives 28 February.
\<close>

lemma monthly_day31_from_28_january:
  "nextDueDate monthly31 (jan31\<lparr>d_date := 28\<rparr>)
   = \<lparr>d_year = 2025, d_month = 1, d_date = 28, d_ms = 0\<rparr>"
  by code_simp

text \<open>
  Claim C2, on the code. The specification's example asks for 28/02/2025 from the rule
  \<open>dayOfMonth = 31\<close> and the base date 31/01/2025. \<open>setMonth\<close> turns 31 January into
  31 February, which the Date built-in carries to 3 March; the last day is then taken
  of March, and the successor that \<open>handleRecurrence\<close> creates is due on 31/03/2025.
\<close>

theorem monthly_day31_from_31_january:
  "nextDueDate monthly31 jan31 = \<lparr>d_year = 2025, d_month = 2, d_date = 31, d_ms = 0\<rparr>
   \<and> calls (snd (handleRecurrence rentKanbn exToday ''pay-rent'' ''Done''
                   (newPanel [(''Todo'', []), (''Done'', [''pay-rent''])])))
     = [CallGetIndex, CallLoadAllTrackedTasks,
        CallCreateTask
          (newTaskFor rentTask monthly31 exToday
             \<lparr>d_year = 2025, d_month = 2, d_date = 31, d_ms = 0\<rparr>)
          (Some ''Todo'')]"
proof
  show "nextDueDate monthly31 jan31 = \<lparr>d_year = 2025, d_month = 2, d_date = 31, d_ms = 0\<rparr>"
    by code_simp
  show "calls (snd (handleRecurrence rentKanbn exToday ''pay-rent'' ''Done''
                   (newPanel [(''Todo'', []), (''Done'', [''pay-rent''])])))
     = [CallGetIndex, CallLoadAllTrackedTasks,
        CallCreateTask
          (newTaskFor rentTask monthly31 exToday
             \<lparr>d_year = 2025, d_month = 2, d_date = 31, d_ms = 0\<rparr>)
          (Some ''Todo'')]"
    by code_simp
qed

section \<open>The bulk handlers\<close>

text \<open>A field that the body of a loop never writes is the same after the loop.\<close>

lemma forOf_field:
  assumes "\<And>x st. f (snd (body x st)) = f st"
  shows "f (snd (forOf body xs st)) = f st"
proof (induction xs arbitrary: st)
  case Nil
  then show ?case by simp
next
  case (Cons x xs)
  obtain e st' where b: "body x st = (e, st')" by (cases "body x st")
  have "f st' = f st" using assms [of x st] b by simp
  with Cons b show ?case by (cases e) auto
qed

text \<open>The loop ends at the first element whose body throws; what follows is not run.\<close>

lemma forOf_fail_here:
  assumes "forOf body pre st = (None, st1)" and "body x st1 = (Some e, st2)"
  shows "forOf body (pre @ x # post) st = (Some e, st2)"
  using assms
proof (induction pre arbitrary: st)
  case Nil
  then show ?case by simp
next
  case (Cons y ys)
  obtain r st' where b: "body y st = (r, st')" by (cases "body y st")
  with Cons.prems(1) have "r = None" by (cases r) auto
  with Cons b show ?case by simp
qed



lemma handleRecurrence_fields:
  "updateSeq (snd (handleRecurrence k today taskId col p)) = updateSeq p"
  "pending (snd (handleRecurrence k today taskId col p)) = pending p"
  "errorMessages (snd (handleRecurrence k today taskId col p)) = errorMessages p"
  by (auto simp: handleRecurrence_def callCreateTask_def Let_def
           split: sum.splits option.splits prod.splits)

lemma callMoveTask_fields:
  "updateSeq (snd (callMoveTask k taskId col pos p)) = updateSeq p"
  "pending (snd (callMoveTask k taskId col pos p)) = pending p"
  "errorMessages (snd (callMoveTask k taskId col pos p)) = errorMessages p"
  by (auto simp: callMoveTask_def split: prod.splits)

lemma callArchiveTask_fields:
  "updateSeq (snd (callArchiveTask k taskId p)) = updateSeq p"
  "pending (snd (callArchiveTask k taskId p)) = pending p"
  "errorMessages (snd (callArchiveTask k taskId p)) = errorMessages p"
  by (auto simp: callArchiveTask_def split: prod.splits)

lemma bulkMoveBody_fields:
  "updateSeq (snd (bulkMoveBody k today col taskId p)) = updateSeq p"
  "pending (snd (bulkMoveBody k today col taskId p)) = pending p"
  "errorMessages (snd (bulkMoveBody k today col taskId p)) = errorMessages p"
proof -
  obtain e p1 where m: "callMoveTask k taskId col (- 1) p = (e, p1)"
    by (cases "callMoveTask k taskId col (- 1) p")
  have f: "updateSeq p1 = updateSeq p" "pending p1 = pending p"
    "errorMessages p1 = errorMessages p"
    using callMoveTask_fields [of k taskId col "- 1" p] m by simp_all
  show "updateSeq (snd (bulkMoveBody k today col taskId p)) = updateSeq p"
    using m f by (cases e) (simp_all add: bulkMoveBody_def handleRecurrence_fields)
  show "pending (snd (bulkMoveBody k today col taskId p)) = pending p"
    using m f by (cases e) (simp_all add: bulkMoveBody_def handleRecurrence_fields)
  show "errorMessages (snd (bulkMoveBody k today col taskId p)) = errorMessages p"
    using m f by (cases e) (simp_all add: bulkMoveBody_def handleRecurrence_fields)
qed

lemma catchShow_cases:
  "catchShow (e, p) =
     (case e of
        None \<Rightarrow> (None, p)
      | Some (ErrorObj m) \<Rightarrow> (None, showErrorMessage m p)
      | Some (OtherValue v) \<Rightarrow> (Some (OtherValue v), p))"
  by (simp add: catchShow_def split: option.splits thrown.splits)

text \<open>
  The move handler after its loop, by what the loop threw: nothing or an \<open>Error\<close>, and
  then the closing refresh is issued; or another value, and then it is not.
\<close>

lemma bulkMove_result:
  assumes "forOf (bulkMoveBody k today col) ids (p\<lparr>suppressUpdates := True\<rparr>) = (e, q)"
  shows "suppressUpdates (snd (bulkMove k cfg today col ids p)) = False"
    and "(\<forall>v. e \<noteq> Some (OtherValue v)) \<Longrightarrow>
           fst (bulkMove k cfg today col ids p) = None
           \<and> updateSeq (snd (bulkMove k cfg today col ids p)) = Suc (updateSeq p)
           \<and> pending (snd (bulkMove k cfg today col ids p))
             = pending p @ [(Suc (updateSeq p), AwaitIndex)]
           \<and> calls (snd (bulkMove k cfg today col ids p)) = calls q @ [CallGetIndex]
           \<and> store (snd (bulkMove k cfg today col ids p)) = store q"
    and "e = Some (ErrorObj m) \<Longrightarrow>
           errorMessages (snd (bulkMove k cfg today col ids p)) = errorMessages p @ [m]"
    and "e = None \<Longrightarrow>
           errorMessages (snd (bulkMove k cfg today col ids p)) = errorMessages p"
    and "e = Some (OtherValue v) \<Longrightarrow>
           fst (bulkMove k cfg today col ids p) = Some (OtherValue v)
           \<and> updateSeq (snd (bulkMove k cfg today col ids p)) = updateSeq p
           \<and> pending (snd (bulkMove k cfg today col ids p)) = pending p
           \<and> calls (snd (bulkMove k cfg today col ids p)) = calls q
           \<and> errorMessages (snd (bulkMove k cfg today col ids p)) = errorMessages p"
proof -
  have q: "q = snd (forOf (bulkMoveBody k today col) ids (p\<lparr>suppressUpdates := True\<rparr>))"
    using assms by simp
  have fq: "updateSeq q = updateSeq p" "pending q = pending p" "errorMessages q = errorMessages p"
    unfolding q
    by (simp_all add: forOf_field [where f = updateSeq] forOf_field [where f = pending]
          forOf_field [where f = errorMessages] bulkMoveBody_fields)
  show "suppressUpdates (snd (bulkMove k cfg today col ids p)) = False"
    using assms
    by (simp add: bulkMove_def catchShow_cases updateStart_def showErrorMessage_def Let_def
             split: option.splits thrown.splits)
  show "(\<forall>v. e \<noteq> Some (OtherValue v)) \<Longrightarrow>
           fst (bulkMove k cfg today col ids p) = None
           \<and> updateSeq (snd (bulkMove k cfg today col ids p)) = Suc (updateSeq p)
           \<and> pending (snd (bulkMove k cfg today col ids p))
             = pending p @ [(Suc (updateSeq p), AwaitIndex)]
           \<and> calls (snd (bulkMove k cfg today col ids p)) = calls q @ [CallGetIndex]
           \<and> store (snd (bulkMove k cfg today col ids p)) = store q"
    using assms fq
    by (simp add: bulkMove_def catchShow_cases updateStart_def showErrorMessage_def Let_def
             split: option.splits thrown.splits)
  show "e = Some (ErrorObj m) \<Longrightarrow>
           errorMessages (snd (bulkMove k cfg today col ids p)) = errorMessages p @ [m]"
    using assms fq
    by (simp add: bulkMove_def catchShow_cases updateStart_def showErrorMessage_def Let_def)
  show "e = None \<Longrightarrow>
           errorMessages (snd (bulkMove k cfg today col ids p)) = errorMessages p"
    using assms fq
    by (simp add: bulkMove_def catchShow_cases updateStart_def showErrorMessage_def Let_def)
  show "e = Some (OtherValue v) \<Longrightarrow>
           fst (bulkMove k cfg today col ids p) = Some (OtherValue v)
           \<and> updateSeq (snd (bulkMove k cfg today col ids p)) = updateSeq p
           \<and> pending (snd (bulkMove k cfg today col ids p)) = pending p
           \<and> calls (snd (bulkMove k cfg today col ids p)) = calls q
           \<and> errorMessages (snd (bulkMove k cfg today col ids p)) = errorMessages p"
    using assms fq
    by (simp add: bulkMove_def catchShow_cases)
qed

text \<open>The archive handler after its loop, in the same three cases.\<close>

lemma bulkArchive_result:
  assumes "forOf (callArchiveTask k) ids (p\<lparr>suppressUpdates := True\<rparr>) = (e, q)"
  shows "suppressUpdates (snd (bulkArchive k cfg ids p)) = False"
    and "(\<forall>v. e \<noteq> Some (OtherValue v)) \<Longrightarrow>
           fst (bulkArchive k cfg ids p) = None
           \<and> updateSeq (snd (bulkArchive k cfg ids p)) = Suc (updateSeq p)
           \<and> pending (snd (bulkArchive k cfg ids p))
             = pending p @ [(Suc (updateSeq p), AwaitIndex)]
           \<and> calls (snd (bulkArchive k cfg ids p)) = calls q @ [CallGetIndex]
           \<and> store (snd (bulkArchive k cfg ids p)) = store q"
    and "e = Some (ErrorObj m) \<Longrightarrow>
           errorMessages (snd (bulkArchive k cfg ids p)) = errorMessages p @ [m]"
    and "e = None \<Longrightarrow>
           errorMessages (snd (bulkArchive k cfg ids p)) = errorMessages p"
    and "e = Some (OtherValue v) \<Longrightarrow>
           fst (bulkArchive k cfg ids p) = Some (OtherValue v)
           \<and> updateSeq (snd (bulkArchive k cfg ids p)) = updateSeq p
           \<and> pending (snd (bulkArchive k cfg ids p)) = pending p
           \<and> calls (snd (bulkArchive k cfg ids p)) = calls q
           \<and> errorMessages (snd (bulkArchive k cfg ids p)) = errorMessages p"
proof -
  have q: "q = snd (forOf (callArchiveTask k) ids (p\<lparr>suppressUpdates := True\<rparr>))"
    using assms by simp
  have fq: "updateSeq q = updateSeq p" "pending q = pending p" "errorMessages q = errorMessages p"
    unfolding q
    by (simp_all add: forOf_field [where f = updateSeq] forOf_field [where f = pending]
          forOf_field [where f = errorMessages] callArchiveTask_fields)
  show "suppressUpdates (snd (bulkArchive k cfg ids p)) = False"
    using assms
    by (simp add: bulkArchive_def catchShow_cases updateStart_def showErrorMessage_def Let_def
             split: option.splits thrown.splits)
  show "(\<forall>v. e \<noteq> Some (OtherValue v)) \<Longrightarrow>
           fst (bulkArchive k cfg ids p) = None
           \<and> updateSeq (snd (bulkArchive k cfg ids p)) = Suc (updateSeq p)
           \<and> pending (snd (bulkArchive k cfg ids p))
             = pending p @ [(Suc (updateSeq p), AwaitIndex)]
           \<and> calls (snd (bulkArchive k cfg ids p)) = calls q @ [CallGetIndex]
           \<and> store (snd (bulkArchive k cfg ids p)) = store q"
    using assms fq
    by (simp add: bulkArchive_def catchShow_cases updateStart_def showErrorMessage_def Let_def
             split: option.splits thrown.splits)
  show "e = Some (ErrorObj m) \<Longrightarrow>
           errorMessages (snd (bulkArchive k cfg ids p)) = errorMessages p @ [m]"
    using assms fq
    by (simp add: bulkArchive_def catchShow_cases updateStart_def showErrorMessage_def Let_def)
  show "e = None \<Longrightarrow>
           errorMessages (snd (bulkArchive k cfg ids p)) = errorMessages p"
    using assms fq
    by (simp add: bulkArchive_def catchShow_cases updateStart_def showErrorMessage_def Let_def)
  show "e = Some (OtherValue v) \<Longrightarrow>
           fst (bulkArchive k cfg ids p) = Some (OtherValue v)
           \<and> updateSeq (snd (bulkArchive k cfg ids p)) = updateSeq p
           \<and> pending (snd (bulkArchive k cfg ids p)) = pending p
           \<and> calls (snd (bulkArchive k cfg ids p)) = calls q
           \<and> errorMessages (snd (bulkArchive k cfg ids p)) = errorMessages p"
    using assms fq
    by (simp add: bulkArchive_def catchShow_cases)
qed

text \<open>
  Claim C1, as amended. In a bulk move, and in a bulk archive, over a list of task ids:
  if the calls for the ids before some id succeed and the call for that id throws an
  \<open>Error\<close>, the batch stops there. The ids after it are not attempted (the store calls
  of the whole run are those made up to the failing call, then the \<open>getIndex\<close> of the
  closing refresh), the store is left as the failing call left it (nothing is rolled
  back), and the error's message is shown once.
\<close>

theorem bulk_stops_at_first_error:
  "(forOf (bulkMoveBody k today col) pre (p\<lparr>suppressUpdates := True\<rparr>) = (None, q)
      \<and> bulkMoveBody k today col tid q = (Some (ErrorObj m), q')
    \<longrightarrow> fst (bulkMove k cfg today col (pre @ tid # post) p) = None
        \<and> calls (snd (bulkMove k cfg today col (pre @ tid # post) p)) = calls q' @ [CallGetIndex]
        \<and> store (snd (bulkMove k cfg today col (pre @ tid # post) p)) = store q'
        \<and> errorMessages (snd (bulkMove k cfg today col (pre @ tid # post) p))
          = errorMessages p @ [m])
   \<and> (forOf (callArchiveTask k) pre (p\<lparr>suppressUpdates := True\<rparr>) = (None, qa)
      \<and> callArchiveTask k tid qa = (Some (ErrorObj m), qa')
    \<longrightarrow> fst (bulkArchive k cfg (pre @ tid # post) p) = None
        \<and> calls (snd (bulkArchive k cfg (pre @ tid # post) p)) = calls qa' @ [CallGetIndex]
        \<and> store (snd (bulkArchive k cfg (pre @ tid # post) p)) = store qa'
        \<and> errorMessages (snd (bulkArchive k cfg (pre @ tid # post) p))
          = errorMessages p @ [m])"
proof (rule conjI; rule impI)
  assume "forOf (bulkMoveBody k today col) pre (p\<lparr>suppressUpdates := True\<rparr>) = (None, q)
          \<and> bulkMoveBody k today col tid q = (Some (ErrorObj m), q')"
  then have l: "forOf (bulkMoveBody k today col) (pre @ tid # post) (p\<lparr>suppressUpdates := True\<rparr>)
                = (Some (ErrorObj m), q')"
    by (auto intro: forOf_fail_here)
  from bulkMove_result(2) [OF l, of cfg] bulkMove_result(3) [OF l, of m cfg]
  show "fst (bulkMove k cfg today col (pre @ tid # post) p) = None
        \<and> calls (snd (bulkMove k cfg today col (pre @ tid # post) p)) = calls q' @ [CallGetIndex]
        \<and> store (snd (bulkMove k cfg today col (pre @ tid # post) p)) = store q'
        \<and> errorMessages (snd (bulkMove k cfg today col (pre @ tid # post) p))
          = errorMessages p @ [m]"
    by simp
next
  assume "forOf (callArchiveTask k) pre (p\<lparr>suppressUpdates := True\<rparr>) = (None, qa)
          \<and> callArchiveTask k tid qa = (Some (ErrorObj m), qa')"
  then have l: "forOf (callArchiveTask k) (pre @ tid # post) (p\<lparr>suppressUpdates := True\<rparr>)
                = (Some (ErrorObj m), qa')"
    by (auto intro: forOf_fail_here)
  from bulkArchive_result(2) [OF l, of cfg] bulkArchive_result(3) [OF l, of m cfg]
  show "fst (bulkArchive k cfg (pre @ tid # post) p) = None
        \<and> calls (snd (bulkArchive k cfg (pre @ tid # post) p)) = calls qa' @ [CallGetIndex]
        \<and> store (snd (bulkArchive k cfg (pre @ tid # post) p)) = store qa'
        \<and> errorMessages (snd (bulkArchive k cfg (pre @ tid # post) p))
          = errorMessages p @ [m]"
    by simp
qed

text \<open>
  On the store in memory, with \<open>ghost\<close> in no column: \<open>t1\<close> is moved (and the recurrence
  check for it reads the index and the tasks), the move of \<open>ghost\<close> throws, and the run
  ends with the closing refresh. In the archive, likewise.
\<close>

theorem bulk_stops_at_first_error_witness:
  "calls (snd (bulkMove memKanbn exConfig exToday ''Done'' ([''t1''] @ ''ghost'' # [''t3''])
                 (newPanel exStore)))
   = [CallMoveTask ''t1'' ''Done'' (- 1), CallGetIndex, CallLoadAllTrackedTasks,
      CallMoveTask ''ghost'' ''Done'' (- 1), CallGetIndex]
   \<and> errorMessages (snd (bulkMove memKanbn exConfig exToday ''Done'' ([''t1''] @ ''ghost'' # [''t3''])
                           (newPanel exStore)))
     = [''No task file found with id ghost'']
   \<and> calls (snd (bulkArchive memKanbn exConfig ([''t1''] @ ''ghost'' # [''t3'']) (newPanel exStore)))
     = [CallArchiveTask ''t1'', CallArchiveTask ''ghost'', CallGetIndex]"
proof -
  let ?p0 = "(newPanel exStore)\<lparr>suppressUpdates := True\<rparr>"
  let ?q = "snd (forOf (bulkMoveBody memKanbn exToday ''Done'') [''t1''] ?p0)"
  let ?q' = "snd (bulkMoveBody memKanbn exToday ''Done'' ''ghost'' ?q)"
  let ?qa = "snd (forOf (callArchiveTask memKanbn) [''t1''] ?p0)"
  let ?qa' = "snd (callArchiveTask memKanbn ''ghost'' ?qa)"
  let ?m = "''No task file found with id ghost''"
  have "fst (forOf (bulkMoveBody memKanbn exToday ''Done'') [''t1''] ?p0) = None"
    by code_simp
  then have a: "forOf (bulkMoveBody memKanbn exToday ''Done'') [''t1''] ?p0 = (None, ?q)"
    by (simp add: prod_eq_iff)
  have "fst (bulkMoveBody memKanbn exToday ''Done'' ''ghost'' ?q) = Some (ErrorObj ?m)"
    by code_simp
  then have b: "bulkMoveBody memKanbn exToday ''Done'' ''ghost'' ?q = (Some (ErrorObj ?m), ?q')"
    by (simp add: prod_eq_iff)
  have "fst (forOf (callArchiveTask memKanbn) [''t1''] ?p0) = None"
    by code_simp
  then have c: "forOf (callArchiveTask memKanbn) [''t1''] ?p0 = (None, ?qa)"
    by (simp add: prod_eq_iff)
  have "fst (callArchiveTask memKanbn ''ghost'' ?qa) = Some (ErrorObj ?m)"
    by code_simp
  then have d: "callArchiveTask memKanbn ''ghost'' ?qa = (Some (ErrorObj ?m), ?qa')"
    by (simp add: prod_eq_iff)
  have e: "calls ?q' = [CallMoveTask ''t1'' ''Done'' (- 1), CallGetIndex, CallLoadAllTrackedTasks,
                       CallMoveTask ''ghost'' ''Done'' (- 1)]"
    by code_simp
  have f: "calls ?qa' = [CallArchiveTask ''t1'', CallArchiveTask ''ghost'']"
    by code_simp
  have g: "errorMessages (newPanel exStore) = []"
    by (simp add: newPanel_def)
  note t = bulk_stops_at_first_error
    [where k = memKanbn and today = exToday and col = "''Done''" and pre = "[''t1'']"
       and p = "newPanel exStore" and q = ?q and tid = "''ghost''" and m = ?m and q' = ?q'
       and cfg = exConfig and post = "[''t3'']" and qa = ?qa and qa' = ?qa']
  from t [THEN conjunct1, rule_format, OF conjI [OF a b]]
       t [THEN conjunct2, rule_format, OF conjI [OF c d]] e f g
  show ?thesis by simp
qed

text \<open>
  The claim as the specification words it fails on the same run: the move of \<open>t3\<close>,
  which stands after the failing id, is never issued, and \<open>t3\<close> stays in its column.
\<close>

theorem bulk_move_abandons_remaining_ids:
  "CallMoveTask ''t3'' ''Done'' (- 1)
     \<notin> set (calls (snd (bulkMove memKanbn exConfig exToday ''Done'' [''t1'', ''ghost'', ''t3'']
                          (newPanel exStore))))
   \<and> store (snd (bulkMove memKanbn exConfig exToday ''Done'' [''t1'', ''ghost'', ''t3'']
                    (newPanel exStore)))
     = [(''Todo'', [''t3'']), (''Done'', [''t1''])]"
  by code_simp

text \<open>
  Claim C9, as amended. After every run of the bulk-move or bulk-archive handler the
  suppress flag is false. When every per-task call succeeds, or the first one that fails
  throws an \<open>Error\<close>, exactly one closing refresh is issued after the batch: the counter
  goes up by one and one refresh, with the new value, is in flight. When the value
  thrown is not an \<open>Error\<close>, the handler throws it again once the flag is restored, and
  issues no refresh.
\<close>

theorem bulk_bracket_restores_flag:
  "suppressUpdates (snd (bulkMove k cfg today col ids p)) = False
   \<and> suppressUpdates (snd (bulkArchive k cfg ids p)) = False
   \<and> ((\<forall>v. fst (forOf (bulkMoveBody k today col) ids (p\<lparr>suppressUpdates := True\<rparr>))
             \<noteq> Some (OtherValue v))
       \<longrightarrow> fst (bulkMove k cfg today col ids p) = None
           \<and> updateSeq (snd (bulkMove k cfg today col ids p)) = Suc (updateSeq p)
           \<and> pending (snd (bulkMove k cfg today col ids p))
             = pending p @ [(Suc (updateSeq p), AwaitIndex)])
   \<and> ((\<forall>v. fst (forOf (callArchiveTask k) ids (p\<lparr>suppressUpdates := True\<rparr>))
             \<noteq> Some (OtherValue v))
       \<longrightarrow> fst (bulkArchive k cfg ids p) = None
           \<and> updateSeq (snd (bulkArchive k cfg ids p)) = Suc (updateSeq p)
           \<and> pending (snd (bulkArchive k cfg ids p))
             = pending p @ [(Suc (updateSeq p), AwaitIndex)])
   \<and> (fst (forOf (bulkMoveBody k today col) ids (p\<lparr>suppressUpdates := True\<rparr>))
         = Some (OtherValue w)
       \<longrightarrow> fst (bulkMove k cfg today col ids p) = Some (OtherValue w)
           \<and> updateSeq (snd (bulkMove k cfg today col ids p)) = updateSeq p
           \<and> pending (snd (bulkMove k cfg today col ids p)) = pending p)
   \<and> (fst (forOf (callArchiveTask k) ids (p\<lparr>suppressUpdates := True\<rparr>))
         = Some (OtherValue w)
       \<longrightarrow> fst (bulkArchive k cfg ids p) = Some (OtherValue w)
           \<and> updateSeq (snd (bulkArchive k cfg ids p)) = updateSeq p
           \<and> pending (snd (bulkArchive k cfg ids p)) = pending p)"
proof -
  obtain e q where m: "forOf (bulkMoveBody k today col) ids (p\<lparr>suppressUpdates := True\<rparr>) = (e, q)"
    by (cases "forOf (bulkMoveBody k today col) ids (p\<lparr>suppressUpdates := True\<rparr>)")
  obtain ea qa where a: "forOf (callArchiveTask k) ids (p\<lparr>suppressUpdates := True\<rparr>) = (ea, qa)"
    by (cases "forOf (callArchiveTask k) ids (p\<lparr>suppressUpdates := True\<rparr>)")
  from bulkMove_result(1) [OF m, of cfg] bulkMove_result(2) [OF m, of cfg]
       bulkMove_result(5) [OF m, of w cfg]
       bulkArchive_result(1) [OF a, of cfg] bulkArchive_result(2) [OF a, of cfg]
       bulkArchive_result(5) [OF a, of w cfg]
  show ?thesis
    by (simp add: m a)
qed

theorem bulk_bracket_restores_flag_witness:
  "suppressUpdates (snd (bulkMove memKanbn exConfig exToday ''Done'' [''t1'', ''ghost'', ''t3'']
                           (newPanel exStore))) = False
   \<and> updateSeq (snd (bulkMove memKanbn exConfig exToday ''Done'' [''t1'', ''ghost'', ''t3'']
                       (newPanel exStore))) = Suc 0
   \<and> pending (snd (bulkMove memKanbn exConfig exToday ''Done'' [''t1'', ''ghost'', ''t3'']
                     (newPanel exStore))) = [(Suc 0, AwaitIndex)]
   \<and> pending (snd (bulkArchive memKanbn exConfig [''t1'', ''t3''] (newPanel exStore)))
     = [(Suc 0, AwaitIndex)]
   \<and> suppressUpdates (snd (bulkArchive rudeKanbn exConfig [''t1'', ''t3''] (newPanel exStore)))
     = False"
proof -
  let ?p0 = "(newPanel exStore)\<lparr>suppressUpdates := True\<rparr>"
  have "fst (forOf (bulkMoveBody memKanbn exToday ''Done'') [''t1'', ''ghost'', ''t3''] ?p0)
        = Some (ErrorObj ''No task file found with id ghost'')"
    by code_simp
  then have a: "\<forall>v. fst (forOf (bulkMoveBody memKanbn exToday ''Done'') [''t1'', ''ghost'', ''t3''] ?p0)
                     \<noteq> Some (OtherValue v)"
    by simp
  have "fst (forOf (callArchiveTask memKanbn) [''t1'', ''t3''] ?p0) = None"
    by code_simp
  then have b: "\<forall>v. fst (forOf (callArchiveTask memKanbn) [''t1'', ''t3''] ?p0) \<noteq> Some (OtherValue v)"
    by simp
  have c: "updateSeq (newPanel exStore) = 0" "pending (newPanel exStore) = []"
    by (simp_all add: newPanel_def)
  note t = bulk_bracket_restores_flag
    [where k = memKanbn and cfg = exConfig and today = exToday and col = "''Done''"
       and ids = "[''t1'', ''ghost'', ''t3'']" and p = "newPanel exStore"]
  note u = bulk_bracket_restores_flag
    [where k = memKanbn and cfg = exConfig and ids = "[''t1'', ''t3'']" and p = "newPanel exStore"]
  note r = bulk_bracket_restores_flag
    [where k = rudeKanbn and cfg = exConfig and ids = "[''t1'', ''t3'']" and p = "newPanel exStore"]
  from t [THEN conjunct1]
       t [THEN conjunct2, THEN conjunct2, THEN conjunct1, THEN mp, OF a]
       u [THEN conjunct2, THEN conjunct2, THEN conjunct2, THEN conjunct1, THEN mp, OF b]
       r [THEN conjunct2, THEN conjunct1] c
  show ?thesis by simp
qed

text \<open>
  The claim as the specification words it fails when the store throws a value that is
  not an \<open>Error\<close>: the first move throws, the handler throws the value again, and no
  closing refresh is issued. The counter stays at 0, nothing is in flight, and the only
  store call of the run is the move that failed.
\<close>

theorem bulk_move_rethrow_skips_refresh:
  "fst (bulkMove rudeKanbn exConfig exToday ''Done'' [''t1'', ''t3''] (newPanel exStore))
   = Some (OtherValue ''cancelled'')
   \<and> updateSeq (snd (bulkMove rudeKanbn exConfig exToday ''Done'' [''t1'', ''t3''] (newPanel exStore)))
     = 0
   \<and> pending (snd (bulkMove rudeKanbn exConfig exToday ''Done'' [''t1'', ''t3''] (newPanel exStore)))
     = []
   \<and> calls (snd (bulkMove rudeKanbn exConfig exToday ''Done'' [''t1'', ''t3''] (newPanel exStore)))
     = [CallMoveTask ''t1'' ''Done'' (- 1)]"
  by code_simp

section \<open>What a bulk move persists\<close>









section \<open>Overlapping refreshes\<close>

lemma map_of_bounded_None:
  assumes "inFlightBounded p" and "updateSeq p < s"
  shows "map_of (pending p) s = None"
proof -
  have "s \<notin> fst ` set (pending p)"
    using assms by (auto simp: inFlightBounded_def list_all_iff)
  then show ?thesis by (simp add: map_of_eq_None_iff)
qed

lemma lookup_filter:
  "map_of (filter (\<lambda>(s, ph). s \<noteq> seq) xs) s' = (if s' = seq then None else map_of xs s')"
  by (induction xs) auto

lemma lookup_forget:
  "map_of (pending (forget seq p)) s = (if s = seq then None else map_of (pending p) s)"
  by (simp add: forget_def lookup_filter)

lemma forget_fields:
  "updateSeq (forget seq p) = updateSeq p"
  "panelOpen (forget seq p) = panelOpen p"
  "suppressUpdates (forget seq p) = suppressUpdates p"
  "errorMessages (forget seq p) = errorMessages p"
  "posted (forget seq p) = posted p"
  by (simp_all add: forget_def)

lemma updateCatch_fields:
  "updateSeq (updateCatch e p) = updateSeq p"
  "panelOpen (updateCatch e p) = panelOpen p"
  "suppressUpdates (updateCatch e p) = suppressUpdates p"
  "pending (updateCatch e p) = pending p"
  "posted (updateCatch e p) = posted p"
  by (cases e; simp add: updateCatch_def showErrorMessage_def)+

text \<open>
  The only step that posts a snapshot is the one that settles the task load of the
  refresh whose captured \<open>seq\<close> is the counter's current value.
\<close>

lemma step_posts_only_current:
  "posted (step k cfg ev p) = posted p
   \<or> (\<exists>index loaded tasks.
         ev = TasksSettled (updateSeq p) (Inr loaded)
         \<and> map_of (pending p) (updateSeq p) = Some (AwaitTasks index)
         \<and> hydrateAll (hydrateTask k index) loaded = Inr tasks
         \<and> posted (step k cfg ev p) = posted p @ [indexMessage k cfg index tasks])"
proof (cases ev)
  case UpdateCalled
  then show ?thesis by (simp add: step_def updateStart_def Let_def)
next
  case (IndexSettled seq r)
  then show ?thesis
    by (auto simp: step_def updateCatch_fields forget_fields
             split: option.splits phase.splits sum.splits)
next
  case (TasksSettled seq r)
  then show ?thesis
    by (auto simp: step_def updateCatch_fields forget_fields
             split: option.splits phase.splits sum.splits)
qed

lemma step_UpdateCalled:
  "\<not> suppressUpdates p \<Longrightarrow>
   step k cfg UpdateCalled p =
     p\<lparr>updateSeq := Suc (updateSeq p),
       pending := pending p @ [(Suc (updateSeq p), AwaitIndex)],
       calls := calls p @ [CallGetIndex]\<rparr>"
  by (simp add: step_def updateStart_def)

lemma started:
  assumes "\<not> suppressUpdates p" and "map_of (pending p) (Suc (updateSeq p)) = None"
  shows "updateSeq (step k cfg UpdateCalled p) = Suc (updateSeq p)"
    and "map_of (pending (step k cfg UpdateCalled p)) s
         = (if s = Suc (updateSeq p) then Some AwaitIndex else map_of (pending p) s)"
    and "posted (step k cfg UpdateCalled p) = posted p"
    and "panelOpen (step k cfg UpdateCalled p) = panelOpen p"
    and "suppressUpdates (step k cfg UpdateCalled p) = suppressUpdates p"
  using assms by (auto simp: step_UpdateCalled map_add_def split: option.splits)

lemma index_current:
  assumes "map_of (pending p) (updateSeq p) = Some AwaitIndex"
  shows "updateSeq (step k cfg (IndexSettled (updateSeq p) (Inr index)) p) = updateSeq p"
    and "map_of (pending (step k cfg (IndexSettled (updateSeq p) (Inr index)) p)) s
         = (if s = updateSeq p then Some (AwaitTasks index) else map_of (pending p) s)"
    and "posted (step k cfg (IndexSettled (updateSeq p) (Inr index)) p) = posted p"
    and "panelOpen (step k cfg (IndexSettled (updateSeq p) (Inr index)) p) = panelOpen p"
  using assms
  by (auto simp: step_def map_add_def lookup_forget forget_fields split: option.splits)

lemma tasks_current:
  assumes "map_of (pending p) (updateSeq p) = Some (AwaitTasks index)"
    and "hydrateAll (hydrateTask k index) loaded = Inr tasks" and "panelOpen p"
  shows "updateSeq (step k cfg (TasksSettled (updateSeq p) (Inr loaded)) p) = updateSeq p"
    and "posted (step k cfg (TasksSettled (updateSeq p) (Inr loaded)) p)
         = posted p @ [indexMessage k cfg index tasks]"
  using assms by (simp_all add: step_def forget_fields)

text \<open>
  An event that settles a call of one refresh leaves the counter, the flags and what
  every other refresh is waiting for as they are.
\<close>

lemma settle_other:
  assumes "settles s ev"
  shows "updateSeq (step k cfg ev p) = updateSeq p"
    and "panelOpen (step k cfg ev p) = panelOpen p"
    and "suppressUpdates (step k cfg ev p) = suppressUpdates p"
    and "s' \<noteq> s \<Longrightarrow> map_of (pending (step k cfg ev p)) s' = map_of (pending p) s'"
proof -
  show "updateSeq (step k cfg ev p) = updateSeq p"
    using assms
    by (cases ev)
       (auto simp: settles_def step_def updateCatch_fields forget_fields
             split: option.splits phase.splits sum.splits)
  show "panelOpen (step k cfg ev p) = panelOpen p"
    using assms
    by (cases ev)
       (auto simp: settles_def step_def updateCatch_fields forget_fields
             split: option.splits phase.splits sum.splits)
  show "suppressUpdates (step k cfg ev p) = suppressUpdates p"
    using assms
    by (cases ev)
       (auto simp: settles_def step_def updateCatch_fields forget_fields
             split: option.splits phase.splits sum.splits)
  show "s' \<noteq> s \<Longrightarrow> map_of (pending (step k cfg ev p)) s' = map_of (pending p) s'"
    using assms
    by (cases ev)
       (auto simp: settles_def step_def updateCatch_fields forget_fields lookup_forget map_add_def
             split: option.splits phase.splits sum.splits)
qed

lemma run_append: "run k cfg (xs @ ys) p = run k cfg ys (run k cfg xs p)"
  by (simp add: run_def)

lemma run_Cons: "run k cfg (ev # evs) p = run k cfg evs (step k cfg ev p)"
  by (simp add: run_def)

lemma run_settle_other:
  assumes "list_all (settles s) evs"
  shows "updateSeq (run k cfg evs p) = updateSeq p
         \<and> panelOpen (run k cfg evs p) = panelOpen p
         \<and> suppressUpdates (run k cfg evs p) = suppressUpdates p
         \<and> (s' \<noteq> s \<longrightarrow> map_of (pending (run k cfg evs p)) s' = map_of (pending p) s')"
  using assms
proof (induction evs arbitrary: p)
  case Nil
  then show ?case by (simp add: run_def)
next
  case (Cons ev evs)
  then have e: "settles s ev" and r: "list_all (settles s) evs" by simp_all
  from Cons.IH [OF r, of "step k cfg ev p"]
  show ?case by (simp add: run_Cons settle_other [OF e])
qed

text \<open>Events of a refresh that is no longer the last one issued post nothing.\<close>

lemma run_stale_posted:
  assumes "list_all (settles s) evs" and "s \<noteq> updateSeq p"
  shows "posted (run k cfg evs p) = posted p"
  using assms
proof (induction evs arbitrary: p)
  case Nil
  then show ?case by (simp add: run_def)
next
  case (Cons ev evs)
  then have e: "settles s ev" and r: "list_all (settles s) evs" by simp_all
  have u: "updateSeq (step k cfg ev p) = updateSeq p"
    using settle_other(1) [OF e] .
  have "posted (step k cfg ev p) = posted p"
    using step_posts_only_current [of k cfg ev p] e Cons.prems(2)
    by (auto simp: settles_def)
  with Cons.IH [OF r, of "step k cfg ev p"] u Cons.prems(2) show ?case
    by (simp add: run_Cons)
qed

lemma inFlightBounded_step: "inFlightBounded p \<Longrightarrow> inFlightBounded (step k cfg ev p)"
proof (cases ev)
  case UpdateCalled
  assume "inFlightBounded p"
  with UpdateCalled show ?thesis
    by (auto simp: step_def updateStart_def inFlightBounded_def list_all_iff Let_def)
next
  case (IndexSettled seq r)
  assume "inFlightBounded p"
  with IndexSettled show ?thesis
    by (auto simp: step_def inFlightBounded_def list_all_iff forget_def updateCatch_fields
             split: option.splits phase.splits sum.splits)
next
  case (TasksSettled seq r)
  assume "inFlightBounded p"
  with TasksSettled show ?thesis
    by (auto simp: step_def inFlightBounded_def list_all_iff forget_def updateCatch_fields
             split: option.splits phase.splits sum.splits)
qed

lemma inFlightBounded_run: "inFlightBounded p \<Longrightarrow> inFlightBounded (run k cfg evs p)"
  by (induction evs arbitrary: p) (simp_all add: run_def inFlightBounded_step)

text \<open>
  Two refreshes A and B, issued in this order, with the events that settle A's store
  calls placed anywhere after A's start: between the two starts, while B is waiting for
  its index or for its tasks, and after B has posted. Whatever A's calls settle with,
  the snapshot displayed at the end is B's.
\<close>

lemma overlapping_refreshes:
  assumes ns: "\<not> suppressUpdates p" and po: "panelOpen p" and ib: "inFlightBounded p"
    and hy: "hydrateAll (hydrateTask k iB) loadedB = Inr tasksB"
    and e1: "list_all (settles (Suc (updateSeq p))) evs1"
    and e2: "list_all (settles (Suc (updateSeq p))) evs2"
    and e3: "list_all (settles (Suc (updateSeq p))) evs3"
    and e4: "list_all (settles (Suc (updateSeq p))) evs4"
  shows "displayed (run k cfg
           ([UpdateCalled] @ evs1 @ [UpdateCalled] @ evs2
            @ [IndexSettled (Suc (Suc (updateSeq p))) (Inr iB)] @ evs3
            @ [TasksSettled (Suc (Suc (updateSeq p))) (Inr loadedB)] @ evs4) p)
         = Some (indexMessage k cfg iB tasksB)"
proof -
  let ?a = "Suc (updateSeq p)"
  let ?b = "Suc (Suc (updateSeq p))"
  define p1 where "p1 = run k cfg evs1 (step k cfg UpdateCalled p)"
  define p2 where "p2 = run k cfg evs2 (step k cfg UpdateCalled p1)"
  define p3 where "p3 = run k cfg evs3 (step k cfg (IndexSettled ?b (Inr iB)) p2)"
  define p4 where "p4 = step k cfg (TasksSettled ?b (Inr loadedB)) p3"
  define p5 where "p5 = run k cfg evs4 p4"
  have n1: "map_of (pending p) ?a = None" and n2: "map_of (pending p) ?b = None"
    using ib by (simp_all add: map_of_bounded_None)
  have s1: "updateSeq p1 = ?a" "map_of (pending p1) ?b = None" "panelOpen p1"
    "\<not> suppressUpdates p1"
    unfolding p1_def
    using run_settle_other [OF e1, of k cfg "step k cfg UpdateCalled p" ?b]
      started [OF ns n1, of k cfg] n2 ns po
    by simp_all
  have e2': "list_all (settles ?a) evs2" and e3': "list_all (settles ?a) evs3"
    and e4': "list_all (settles ?a) evs4"
    using e2 e3 e4 by simp_all
  have s2: "updateSeq p2 = ?b" "map_of (pending p2) ?b = Some AwaitIndex" "panelOpen p2"
    unfolding p2_def
    using run_settle_other [OF e2', of k cfg "step k cfg UpdateCalled p1" ?b]
      started [of p1 k cfg] s1
    by simp_all
  have s3: "updateSeq p3 = ?b" "map_of (pending p3) ?b = Some (AwaitTasks iB)" "panelOpen p3"
    unfolding p3_def
    using run_settle_other [OF e3', of k cfg "step k cfg (IndexSettled ?b (Inr iB)) p2" ?b]
      index_current [of p2 k cfg iB] s2
    by simp_all
  have s4: "updateSeq p4 = ?b" "posted p4 = posted p3 @ [indexMessage k cfg iB tasksB]"
    unfolding p4_def
    using tasks_current [of p3 iB k loadedB tasksB cfg] s3 hy by simp_all
  have s5: "posted p5 = posted p3 @ [indexMessage k cfg iB tasksB]"
    unfolding p5_def
    using run_stale_posted [OF e4', of p4 k cfg] s4 by simp
  have "run k cfg
           ([UpdateCalled] @ evs1 @ [UpdateCalled] @ evs2
            @ [IndexSettled ?b (Inr iB)] @ evs3 @ [TasksSettled ?b (Inr loadedB)] @ evs4) p = p5"
    by (simp add: run_append run_Cons p1_def p2_def p3_def p4_def p5_def)
  then show ?thesis
    using s5 by (simp add: displayed_def)
qed

text \<open>
  Claim C3. Each refresh that is not suppressed increments the counter and captures the
  new value before it fetches. A snapshot is posted only by the step that settles the
  task load of the refresh whose captured value still equals the counter. So when
  refresh A is issued, then refresh B, and A's calls settle after B's, the displayed
  state is B's result and not A's.
\<close>

theorem last_issued_refresh_wins:
  "(\<not> suppressUpdates p
    \<longrightarrow> updateSeq (updateStart p) = Suc (updateSeq p)
        \<and> pending (updateStart p) = pending p @ [(Suc (updateSeq p), AwaitIndex)])
   \<and> (posted (step k cfg ev p) = posted p
       \<or> (\<exists>index loaded tasks.
             ev = TasksSettled (updateSeq p) (Inr loaded)
             \<and> map_of (pending p) (updateSeq p) = Some (AwaitTasks index)
             \<and> hydrateAll (hydrateTask k index) loaded = Inr tasks
             \<and> posted (step k cfg ev p) = posted p @ [indexMessage k cfg index tasks]))
   \<and> (\<not> suppressUpdates p \<and> panelOpen p \<and> inFlightBounded p
       \<and> hydrateAll (hydrateTask k iB) loadedB = Inr tasksB
       \<longrightarrow> displayed (run k cfg
              [UpdateCalled, UpdateCalled,
               IndexSettled (Suc (Suc (updateSeq p))) (Inr iB),
               TasksSettled (Suc (Suc (updateSeq p))) (Inr loadedB),
               IndexSettled (Suc (updateSeq p)) rA,
               TasksSettled (Suc (updateSeq p)) rA'] p)
           = Some (indexMessage k cfg iB tasksB))"
proof (intro conjI)
  show "\<not> suppressUpdates p
    \<longrightarrow> updateSeq (updateStart p) = Suc (updateSeq p)
        \<and> pending (updateStart p) = pending p @ [(Suc (updateSeq p), AwaitIndex)]"
    by (simp add: updateStart_def)
  show "posted (step k cfg ev p) = posted p
       \<or> (\<exists>index loaded tasks.
             ev = TasksSettled (updateSeq p) (Inr loaded)
             \<and> map_of (pending p) (updateSeq p) = Some (AwaitTasks index)
             \<and> hydrateAll (hydrateTask k index) loaded = Inr tasks
             \<and> posted (step k cfg ev p) = posted p @ [indexMessage k cfg index tasks])"
    by (rule step_posts_only_current)
  show "\<not> suppressUpdates p \<and> panelOpen p \<and> inFlightBounded p
       \<and> hydrateAll (hydrateTask k iB) loadedB = Inr tasksB
       \<longrightarrow> displayed (run k cfg
              [UpdateCalled, UpdateCalled,
               IndexSettled (Suc (Suc (updateSeq p))) (Inr iB),
               TasksSettled (Suc (Suc (updateSeq p))) (Inr loadedB),
               IndexSettled (Suc (updateSeq p)) rA,
               TasksSettled (Suc (updateSeq p)) rA'] p)
           = Some (indexMessage k cfg iB tasksB)"
  proof
    assume h: "\<not> suppressUpdates p \<and> panelOpen p \<and> inFlightBounded p
       \<and> hydrateAll (hydrateTask k iB) loadedB = Inr tasksB"
    have e: "list_all (settles (Suc (updateSeq p))) []"
      and e4: "list_all (settles (Suc (updateSeq p)))
                 [IndexSettled (Suc (updateSeq p)) rA, TasksSettled (Suc (updateSeq p)) rA']"
      by (simp_all add: settles_def)
    from h overlapping_refreshes [of p k iB loadedB tasksB "[]" "[]" "[]"
        "[IndexSettled (Suc (updateSeq p)) rA, TasksSettled (Suc (updateSeq p)) rA']" cfg,
        OF _ _ _ _ e e e e4]
    show "displayed (run k cfg
              [UpdateCalled, UpdateCalled,
               IndexSettled (Suc (Suc (updateSeq p))) (Inr iB),
               TasksSettled (Suc (Suc (updateSeq p))) (Inr loadedB),
               IndexSettled (Suc (updateSeq p)) rA,
               TasksSettled (Suc (updateSeq p)) rA'] p)
           = Some (indexMessage k cfg iB tasksB)"
      by simp
  qed
qed

text \<open>
  On a fresh panel: A is refresh 1 and reads the board before the move, B is refresh 2
  and reads it after; B settles first, A afterwards. The board shown is B's.
\<close>

theorem last_issued_refresh_wins_witness:
  "displayed (run memKanbn exConfig
     [UpdateCalled, UpdateCalled,
      IndexSettled (Suc (Suc 0)) (Inr (memIndex [(''Todo'', [''t3'']), (''Done'', [''t1''])])),
      TasksSettled (Suc (Suc 0)) (Inr [bareXTask ''t3'', bareXTask ''t1'']),
      IndexSettled (Suc 0) (Inr (memIndex exStore)),
      TasksSettled (Suc 0) (Inr [bareXTask ''t1'', bareXTask ''t3''])] (newPanel exStore))
   = Some (indexMessage memKanbn exConfig (memIndex [(''Todo'', [''t3'']), (''Done'', [''t1''])])
             [bareXTask ''t3'', bareXTask ''t1''])"
proof -
  let ?iB = "memIndex [(''Todo'', [''t3'']), (''Done'', [''t1''])]"
  let ?lB = "[bareXTask ''t3'', bareXTask ''t1'']"
  have h: "\<not> suppressUpdates (newPanel exStore) \<and> panelOpen (newPanel exStore)
           \<and> inFlightBounded (newPanel exStore)
           \<and> hydrateAll (hydrateTask memKanbn ?iB) ?lB = Inr ?lB"
    by (simp add: newPanel_def inFlightBounded_def memKanbn_def)
  have z: "updateSeq (newPanel exStore) = 0"
    by (simp add: newPanel_def)
  note t = last_issued_refresh_wins
    [where p = "newPanel exStore" and k = memKanbn and cfg = exConfig and iB = ?iB
       and loadedB = ?lB and tasksB = ?lB and rA = "Inr (memIndex exStore)"
       and rA' = "Inr [bareXTask ''t1'', bareXTask ''t3'']"]
  from t [THEN conjunct2, THEN conjunct2, THEN mp, OF h]
  show ?thesis
    unfolding z .
qed



end
